theory Spec2Isabelle
  imports Main "HOL-Library.Word" "HOL-Library.Signed_Division"
begin

section \<open>Strings\<close>

text \<open>
  A QString is a sequence of UTF-16 code units (QChar, 16 bits); \<open>length\<close> counts code
  units, as \<open>QString::length()\<close> does. The regular expressions of the source are
  matched code unit by code unit: every class they use (\<open>{\<close>, \<open>}\<close>, \<open>%\<close>, ASCII
  letters, \<open>\s\<close>) treats both halves of a surrogate pair alike, so on well-formed UTF-16
  this agrees with matching by code point.
\<close>

type_synonym qchar = "16 word"
type_synonym qstring = "qchar list"

definition QLatin1Char :: "char \<Rightarrow> qchar" where
  "QLatin1Char c = of_char c"

definition QLatin1String :: "string \<Rightarrow> qstring" where
  "QLatin1String s = map QLatin1Char s"

text \<open>\<open>QChar::isSpace\<close>: space, the controls 9..13, U+0085, U+00A0 and the Unicode
  separator categories Zs, Zl, Zp of the basic plane.\<close>

definition isSpace :: "qchar \<Rightarrow> bool" where
  "isSpace c \<longleftrightarrow>
     c = 0x20 \<or> (0x09 \<le> c \<and> c \<le> 0x0D) \<or> c = 0x85 \<or> c = 0xA0 \<or> c = 0x1680 \<or>
     (0x2000 \<le> c \<and> c \<le> 0x200A) \<or> c = 0x2028 \<or> c = 0x2029 \<or> c = 0x202F \<or>
     c = 0x205F \<or> c = 0x3000"

text \<open>The class \<open>\s\<close> of QRegularExpression without the Unicode-properties option:
  space and the controls 9..13.\<close>

definition regex_space :: "qchar \<Rightarrow> bool" where
  "regex_space c \<longleftrightarrow> c = 0x20 \<or> (0x09 \<le> c \<and> c \<le> 0x0D)"

text \<open>The class \<open>[a-zA-Z]\<close>.\<close>

definition is_letter :: "qchar \<Rightarrow> bool" where
  "is_letter c \<longleftrightarrow> (0x61 \<le> c \<and> c \<le> 0x7A) \<or> (0x41 \<le> c \<and> c \<le> 0x5A)"

text \<open>\<open>QString::trimmed\<close>: whitespace removed from both ends.\<close>

definition trimmed :: "qstring \<Rightarrow> qstring" where
  "trimmed s = rev (dropWhile isSpace (rev (dropWhile isSpace s)))"

text \<open>\<open>QString::split(sep)\<close> with the default \<open>KeepEmptyParts\<close>: the fields between
  separators; the empty string has the one field \<open>[]\<close>.\<close>

fun split :: "qchar \<Rightarrow> qstring \<Rightarrow> qstring list" where
  "split sep [] = [[]]"
| "split sep (c # cs) =
     (if c = sep then [] # split sep cs
      else (case split sep cs of [] \<Rightarrow> [[c]] | w # ws \<Rightarrow> (c # w) # ws))"

text \<open>\<open>QStringList::join(sep)\<close>.\<close>

fun join :: "qchar \<Rightarrow> qstring list \<Rightarrow> qstring" where
  "join sep [] = []"
| "join sep [w] = w"
| "join sep (w # v # ws) = w @ sep # join sep (v # ws)"

text \<open>\<open>QString::simplified\<close>: the maximal runs of non-whitespace, joined by one
  space each.\<close>

fun space_fields :: "qstring \<Rightarrow> qstring list" where
  "space_fields [] = [[]]"
| "space_fields (c # cs) =
     (if isSpace c then [] # space_fields cs
      else (case space_fields cs of [] \<Rightarrow> [[c]] | w # ws \<Rightarrow> (c # w) # ws))"

definition simplified :: "qstring \<Rightarrow> qstring" where
  "simplified s = join 0x20 (filter (\<lambda>w. w \<noteq> []) (space_fields s))"

text \<open>\<open>QString::section(sep, start, end)\<close> with the default flags: the fields
  from \<open>start\<close> to \<open>end\<close> (here \<open>stop\<close>), negative indices counting from the
  right, joined by \<open>sep\<close>.\<close>

definition QString_section :: "qchar \<Rightarrow> int \<Rightarrow> int \<Rightarrow> qstring \<Rightarrow> qstring" where
  "QString_section sep start stop s =
     (let sections = split sep s;
          n = int (length sections);
          start' = (if start < 0 then start + n else start);
          stop' = (if stop < 0 then stop + n else stop)
      in if start' \<ge> n \<or> stop' < 0 \<or> start' > stop' then []
         else join sep (take (nat (stop' - max 0 start' + 1)) (drop (nat start') sections)))"

text \<open>\<open>QString::replace(pos, len, after)\<close>.\<close>

definition QString_replace :: "qstring \<Rightarrow> nat \<Rightarrow> nat \<Rightarrow> qstring \<Rightarrow> qstring" where
  "QString_replace s pos len after = take pos s @ after @ drop (pos + len) s"

text \<open>\<open>QString::number\<close> of an integer: base 10, with a minus sign.\<close>

fun digits :: "nat \<Rightarrow> qstring" where
  "digits n = (if n < 10 then [of_nat (48 + n)] else digits (n div 10) @ [of_nat (48 + n mod 10)])"

declare digits.simps [simp del]

definition QString_number :: "int \<Rightarrow> qstring" where
  "QString_number n = (if n < 0 then QLatin1Char CHR ''-'' # digits (nat (- n)) else digits (nat n))"

subsection \<open>File names\<close>

text \<open>
  \<open>QFileInfo\<close> on a path with \<open>/\<close> as separator. The file name is the text after the
  last separator; \<open>completeBaseName\<close> is the file name up to its last dot, \<open>suffix\<close>
  the text after that dot; \<open>path\<close> is the text before the last separator, \<open>.\<close> when
  there is no separator, \<open>/\<close> when the only separator is the first character, and
  empty for the empty file name.
\<close>

definition fileName :: "qstring \<Rightarrow> qstring" where
  "fileName s = rev (takeWhile (\<lambda>c. c \<noteq> QLatin1Char CHR ''/'') (rev s))"

definition beforeLast :: "qchar \<Rightarrow> qstring \<Rightarrow> qstring" where
  "beforeLast sep s = rev (tl (dropWhile (\<lambda>c. c \<noteq> sep) (rev s)))"

definition QFileInfo_path :: "qstring \<Rightarrow> qstring" where
  "QFileInfo_path s =
     (if s = [] then []
      else if QLatin1Char CHR ''/'' \<notin> set s then QLatin1String ''.''
      else if beforeLast (QLatin1Char CHR ''/'') s = [] then QLatin1String ''/''
      else beforeLast (QLatin1Char CHR ''/'') s)"

definition QFileInfo_completeBaseName :: "qstring \<Rightarrow> qstring" where
  "QFileInfo_completeBaseName s =
     (let f = fileName s
      in if QLatin1Char CHR ''.'' \<in> set f then beforeLast (QLatin1Char CHR ''.'') f else f)"

definition QFileInfo_suffix :: "qstring \<Rightarrow> qstring" where
  "QFileInfo_suffix s =
     (let f = fileName s
      in if QLatin1Char CHR ''.'' \<in> set f
         then rev (takeWhile (\<lambda>c. c \<noteq> QLatin1Char CHR ''.'') (rev f)) else [])"

subsection \<open>Regular expression matches\<close>

text \<open>
  \<open>QRegularExpression::match(subject, offset)\<close> finds the leftmost match that starts
  at or after \<open>offset\<close>. A pattern is given by its matcher at a fixed position: the
  length of the match that starts at the head of the text, if there is one.
\<close>

fun scan :: "(qstring \<Rightarrow> nat option) \<Rightarrow> qstring \<Rightarrow> nat \<Rightarrow> (nat \<times> nat) option" where
  "scan m [] i = None"
| "scan m (c # cs) i = (case m (c # cs) of Some l \<Rightarrow> Some (i, l) | None \<Rightarrow> scan m cs (Suc i))"

definition regex_match :: "(qstring \<Rightarrow> nat option) \<Rightarrow> qstring \<Rightarrow> nat \<Rightarrow> (nat \<times> nat) option" where
  "regex_match m subject offset =
     (if offset \<le> length subject then scan m (drop offset subject) offset else None)"

definition not_brace :: "qchar \<Rightarrow> bool" where
  "not_brace c \<longleftrightarrow> c \<noteq> QLatin1Char CHR ''{'' \<and> c \<noteq> QLatin1Char CHR ''}''"

text \<open>\<open>kBlockPattern\<close>, \<open>\{([^{}]+)\}\<close>: an opening brace, one or more characters
  that are not braces (as many as there are), a closing brace.\<close>

definition kBlockPattern :: "qstring \<Rightarrow> nat option" where
  "kBlockPattern s =
     (case s of [] \<Rightarrow> None
      | c # rest \<Rightarrow>
          if c = QLatin1Char CHR ''{'' then
            (case dropWhile not_brace rest of [] \<Rightarrow> None
             | d # _ \<Rightarrow>
                 if takeWhile not_brace rest \<noteq> [] \<and> d = QLatin1Char CHR ''}''
                 then Some (length (takeWhile not_brace rest) + 2) else None)
          else None)"

text \<open>\<open>kTagPattern\<close>, \<open>\%([a-zA-Z]*)\<close>: a percent sign and the letters after it,
  none included.\<close>

definition kTagPattern :: "qstring \<Rightarrow> nat option" where
  "kTagPattern s =
     (case s of [] \<Rightarrow> None
      | c # rest \<Rightarrow>
          if c = QLatin1Char CHR ''%'' then Some (1 + length (takeWhile is_letter rest))
          else None)"

text \<open>\<open>value.remove(regex_the)\<close> with the pattern \<open>^the\s+\<close>, case-insensitive: the
  anchor lets it match at the start only, so at most one match is removed.\<close>

definition remove_regex_the :: "qstring \<Rightarrow> qstring" where
  "remove_regex_the s =
     (case s of
        t # h # e # w # rest \<Rightarrow>
          if (t = QLatin1Char CHR ''t'' \<or> t = QLatin1Char CHR ''T'') \<and>
             (h = QLatin1Char CHR ''h'' \<or> h = QLatin1Char CHR ''H'') \<and>
             (e = QLatin1Char CHR ''e'' \<or> e = QLatin1Char CHR ''E'') \<and> regex_space w
          then dropWhile regex_space rest else s
      | _ \<Rightarrow> s)"

section \<open>Data model\<close>

text \<open>
  The metadata record. \<open>Song\<close> is declared outside the files at hand; the record
  holds, for one song, the value that each accessor called by the source returns
  (\<open>url_toLocalFile\<close> stands for \<open>song.url().toLocalFile()\<close>). The numeric accessors
  are only printed or divided by a positive constant, so they are unbounded integers.
\<close>

record Song =
  title :: qstring
  album :: qstring
  artist :: qstring
  composer :: qstring
  performer :: qstring
  grouping :: qstring
  lyrics :: qstring
  genre :: qstring
  comment :: qstring
  year :: int
  effective_originalyear :: int
  track :: int
  disc :: int
  length_nanosec :: int
  bitrate :: int
  samplerate :: int
  bitdepth :: int
  url_toLocalFile :: qstring
  effective_albumartist :: qstring
  is_compilation :: bool
  basefilename :: qstring

text \<open>The fields of an \<open>OrganizeFormat\<close> object (\<open>format\<close> for \<open>format_\<close>, and
  so on: a name cannot end with an underscore here).\<close>

record OrganizeFormat =
  format :: qstring
  remove_problematic :: bool
  remove_non_fat :: bool
  remove_non_ascii :: bool
  allow_ascii_ext :: bool
  replace_spaces :: bool

text \<open>
  What the source takes from headers and libraries that are not at hand, as
  parameters: the constants of \<open>utilities/filenameconstants.h\<close> (each regular
  expression is a set of single characters, given by the characters it matches under
  the case-insensitive option; \<open>kInvalidPrefixCharactersCount\<close> is the length of
  \<open>kInvalidPrefixCharacters\<close>), \<open>Utilities::Transliterate\<close>, and the Unicode tables
  behind \<open>QChar::decomposition\<close> and \<open>QChar::toUpper\<close>.
\<close>

record environment =
  kProblematicCharactersRegex :: "qchar \<Rightarrow> bool"
  kInvalidFatCharactersRegex :: "qchar \<Rightarrow> bool"
  kInvalidDirCharactersRegex :: "qchar \<Rightarrow> bool"
  kInvalidPrefixCharacters :: "char list"
  Transliterate :: "qstring \<Rightarrow> qstring"
  decomposition :: "qchar \<Rightarrow> qstring"
  toUpper :: "qchar \<Rightarrow> qchar"

text \<open>Modelled from the spec: \<open>kNsecPerSec\<close> of \<open>utilities/timeconstants.h\<close>, which
  is not at hand; the spec calls it nanoseconds-per-second.\<close>

definition kNsecPerSec :: int where
  "kNsecPerSec = 1000000000"

text \<open>Modelled from the spec: \<open>GetFilenameForSongResult\<close> is declared in
  \<open>organizeformat.h\<close>, which is not at hand. The spec gives a result with a path and a
  uniqueness flag, or an explicit signal that no path could be produced; \<open>Rejected\<close>
  is what the default constructor at line 116 builds.\<close>

datatype GetFilenameForSongResult = Rejected | Result qstring bool

definition kUniqueTags :: "qstring list" where
  "kUniqueTags = [QLatin1String ''title'', QLatin1String ''track'']"

definition OrganizeFormat_new :: "qstring \<Rightarrow> OrganizeFormat" where
  "OrganizeFormat_new v =
     \<lparr>format = v, remove_problematic = False, remove_non_fat = False,
      remove_non_ascii = False, allow_ascii_ext = False, replace_spaces = True\<rparr>"

definition set_format :: "qstring \<Rightarrow> OrganizeFormat \<Rightarrow> OrganizeFormat" where
  "set_format v fmt =
     fmt\<lparr>format := map (\<lambda>c. if c = QLatin1Char (CHR 0x5C) then QLatin1Char CHR ''/'' else c) v\<rparr>"

section \<open>TagValue\<close>

text \<open>
  Lines 246 to 310: the chain of comparisons on the tag name. \<open>value[0]\<close> on an empty
  string is outside the string; that outcome is \<open>None\<close>.
\<close>

definition field_value :: "environment \<Rightarrow> qstring \<Rightarrow> Song \<Rightarrow> qstring option" where
  "field_value env tag song =
     (if tag = QLatin1String ''title'' then Some (title song)
      else if tag = QLatin1String ''album'' then Some (album song)
      else if tag = QLatin1String ''artist'' then Some (artist song)
      else if tag = QLatin1String ''composer'' then Some (composer song)
      else if tag = QLatin1String ''performer'' then Some (performer song)
      else if tag = QLatin1String ''grouping'' then Some (grouping song)
      else if tag = QLatin1String ''lyrics'' then Some (lyrics song)
      else if tag = QLatin1String ''genre'' then Some (genre song)
      else if tag = QLatin1String ''comment'' then Some (comment song)
      else if tag = QLatin1String ''year'' then Some (QString_number (year song))
      else if tag = QLatin1String ''originalyear'' then
        Some (QString_number (effective_originalyear song))
      else if tag = QLatin1String ''track'' then Some (QString_number (track song))
      else if tag = QLatin1String ''disc'' then Some (QString_number (disc song))
      else if tag = QLatin1String ''length'' then
        Some (QString_number (length_nanosec song sdiv kNsecPerSec))
      else if tag = QLatin1String ''bitrate'' then Some (QString_number (bitrate song))
      else if tag = QLatin1String ''samplerate'' then Some (QString_number (samplerate song))
      else if tag = QLatin1String ''bitdepth'' then Some (QString_number (bitdepth song))
      else if tag = QLatin1String ''extension'' then Some (QFileInfo_suffix (url_toLocalFile song))
      else if tag = QLatin1String ''artistinitial'' then
        (let value = trimmed (effective_albumartist song)
         in if value \<noteq> [] then
              (case remove_regex_the value of
                 [] \<Rightarrow> None
               | c # _ \<Rightarrow> Some [toUpper env c])
            else Some value)
      else if tag = QLatin1String ''albumartist'' then
        Some (if is_compilation song then QLatin1String ''Various Artists''
              else effective_albumartist song)
      else Some [])"

text \<open>Lines 312 to 323: suppression of \<open>0\<close> and \<open>-1\<close>, the padding of one-character
  track numbers, and the removal of characters that must not be in a path.\<close>

definition TagValue :: "environment \<Rightarrow> OrganizeFormat \<Rightarrow> qstring \<Rightarrow> Song \<Rightarrow> qstring option" where
  "TagValue env fmt tag song =
     (case field_value env tag song of
        None \<Rightarrow> None
      | Some value \<Rightarrow>
          (let value1 = (if value = QLatin1String ''0'' \<or> value = QLatin1String ''-1''
                         then [] else value);
               value2 = (if tag = QLatin1String ''track'' \<and> length value1 = 1
                         then QLatin1Char CHR ''0'' # value1 else value1);
               value3 = filter (\<lambda>c. \<not> kInvalidDirCharactersRegex env c) value2;
               value4 = (if remove_problematic fmt
                         then filter (\<lambda>c. c \<noteq> QLatin1Char CHR ''.'') value3 else value3)
           in Some (trimmed value4)))"

section \<open>ParseBlock\<close>

text \<open>
  \<open>have_tagdata\<close> is a pointer that may be null: \<open>None\<close> is the null pointer,
  \<open>Some b\<close> a pointer to a flag that holds \<open>b\<close>; the flag after the call is returned.
  \<open>any_empty\<close> is only written, at the end of the call: the local \<open>empty\<close> (here \<open>empty1\<close>) is
  returned, and a caller that passes no pointer ignores it. A failed \<open>TagValue\<close> ends
  the evaluation.

  The loop at lines 219 to 232, from the position \<open>pos\<close>.
\<close>

function tags_loop ::
  "environment \<Rightarrow> OrganizeFormat \<Rightarrow> Song \<Rightarrow> qstring \<Rightarrow> nat \<Rightarrow> bool option \<Rightarrow> bool
    \<Rightarrow> (qstring \<times> bool option \<times> bool) option" where
  "tags_loop env fmt song block pos have_tagdata empty1 =
     (case regex_match kTagPattern block pos of
        None \<Rightarrow> Some (block, have_tagdata, empty1)
      | Some (start, len) \<Rightarrow>
          (case TagValue env fmt (take (len - 1) (drop (start + 1) block)) song of
             None \<Rightarrow> None
           | Some value \<Rightarrow>
               tags_loop env fmt song (QString_replace block start len value)
                 (start + length value)
                 (if value \<noteq> [] \<and> have_tagdata \<noteq> None \<and>
                     take (len - 1) (drop (start + 1) block) \<in> set kUniqueTags
                  then Some True else have_tagdata)
                 (if value = [] then True else empty1)))"
  by pat_completeness auto

text \<open>\<open>ParseBlock\<close>, and its loop at lines 203 to 213 from the position \<open>pos\<close>.\<close>

function ParseBlock ::
  "environment \<Rightarrow> OrganizeFormat \<Rightarrow> qstring \<Rightarrow> Song \<Rightarrow> bool option
    \<Rightarrow> (qstring \<times> bool option \<times> bool) option"
and blocks_loop ::
  "environment \<Rightarrow> OrganizeFormat \<Rightarrow> Song \<Rightarrow> qstring \<Rightarrow> nat \<Rightarrow> bool option
    \<Rightarrow> (qstring \<times> bool option) option" where
  "ParseBlock env fmt block song have_tagdata =
     (case blocks_loop env fmt song block 0 have_tagdata of
        None \<Rightarrow> None
      | Some (block1, have_tagdata1) \<Rightarrow> tags_loop env fmt song block1 0 have_tagdata1 False)"
| "blocks_loop env fmt song block pos have_tagdata =
     (case regex_match kBlockPattern block pos of
        None \<Rightarrow> Some (block, have_tagdata)
      | Some (start, len) \<Rightarrow>
          (case ParseBlock env fmt (take (len - 2) (drop (start + 1) block)) song have_tagdata of
             None \<Rightarrow> None
           | Some (value, have_tagdata1, empty1) \<Rightarrow>
               blocks_loop env fmt song
                 (QString_replace block start len (if empty1 then [] else value))
                 (start + length (if empty1 then [] else value)) have_tagdata1))"
  by pat_completeness auto

section \<open>GetFilenameForSong\<close>

text \<open>Lines 94 to 113: the fallback to the base filename of the song.\<close>

definition fallback_filepath :: "Song \<Rightarrow> qstring \<Rightarrow> qstring" where
  "fallback_filepath song parsed =
     (let filepath = (if parsed = [] then basefilename song else parsed)
      in if QFileInfo_completeBaseName filepath = [] then
           (let path = QFileInfo_path filepath
            in (if path \<noteq> [] then
                  path @ (if drop (length path - 1) path \<noteq> QLatin1String ''/''
                          then QLatin1String ''/'' else [])
                else []) @ basefilename song)
         else filepath)"

text \<open>The condition of line 115.\<close>

definition rejected :: "qstring \<Rightarrow> bool" where
  "rejected filepath \<longleftrightarrow>
     filepath = [] \<or>
     (QLatin1Char CHR ''/'' \<in> set filepath \<and>
      (QString_section (QLatin1Char CHR ''/'') 0 (- 2) filepath = [] \<or>
       QString_section (QLatin1Char CHR ''/'') 0 (- 2) filepath = []))"

text \<open>Lines 130 to 145: the filter on the code unit, with the threshold \<open>ascii\<close>.\<close>

fun strip_non_ascii :: "environment \<Rightarrow> nat \<Rightarrow> qstring \<Rightarrow> qstring" where
  "strip_non_ascii env ascii [] = []"
| "strip_non_ascii env ascii (c # cs) =
     (if unat c < ascii then [c]
      else (case decomposition env c of
              [] \<Rightarrow> []
            | d # _ \<Rightarrow> if unat d < ascii then [d] else [])) @ strip_non_ascii env ascii cs"

text \<open>Lines 119 to 149: the removal of characters and the simplification of
  whitespace.\<close>

definition remove_characters :: "environment \<Rightarrow> OrganizeFormat \<Rightarrow> qstring \<Rightarrow> qstring" where
  "remove_characters env fmt filepath =
     (let filepath1 = (if remove_problematic fmt
                       then filter (\<lambda>c. \<not> kProblematicCharactersRegex env c) filepath
                       else filepath);
          filepath2 = (if remove_non_fat fmt \<or> (remove_non_ascii fmt \<and> \<not> allow_ascii_ext fmt)
                       then Transliterate env filepath1 else filepath1);
          filepath3 = (if remove_non_fat fmt
                       then filter (\<lambda>c. \<not> kInvalidFatCharactersRegex env c) filepath2
                       else filepath2);
          filepath4 = (if remove_non_ascii fmt
                       then strip_non_ascii env (if allow_ascii_ext fmt then 255 else 128) filepath3
                       else filepath3)
      in simplified filepath4)"

text \<open>Lines 154 to 161: the extension, given the simplified path \<open>info\<close>.\<close>

definition fixup_extension :: "Song \<Rightarrow> qstring \<Rightarrow> qstring \<Rightarrow> qstring" where
  "fixup_extension song extension info =
     (if extension = [] then
        (if QFileInfo_suffix info = [] then QFileInfo_suffix (url_toLocalFile song)
         else QFileInfo_suffix info)
      else extension)"

text \<open>Lines 162 to 166: the path without its suffix.\<close>

definition fixup_filepath :: "qstring \<Rightarrow> qstring" where
  "fixup_filepath info =
     (if QFileInfo_path info \<noteq> [] \<and> QFileInfo_path info \<noteq> QLatin1String ''.''
      then QFileInfo_path info @ QLatin1String ''/'' else [])
     @ QFileInfo_completeBaseName info"

text \<open>Lines 173 to 178: the first character of \<open>kInvalidPrefixCharacters\<close> that the
  part starts with makes the part lose one character, and ends the loop.\<close>

fun strip_invalid_prefix :: "char list \<Rightarrow> qstring \<Rightarrow> qstring" where
  "strip_invalid_prefix [] part = part"
| "strip_invalid_prefix (k # ks) part =
     (if part \<noteq> [] \<and> hd part = QLatin1Char k then drop 1 part
      else strip_invalid_prefix ks part)"

text \<open>Lines 169 to 182.\<close>

definition fix_parts :: "environment \<Rightarrow> qstring \<Rightarrow> qstring" where
  "fix_parts env filepath =
     join (QLatin1Char CHR ''/'')
       (map (\<lambda>part. trimmed (strip_invalid_prefix (kInvalidPrefixCharacters env) part))
          (split (QLatin1Char CHR ''/'') filepath))"

text \<open>Lines 184 to 187.\<close>

definition replace_whitespaces :: "OrganizeFormat \<Rightarrow> qstring \<Rightarrow> qstring" where
  "replace_whitespaces fmt filepath =
     (if replace_spaces fmt
      then map (\<lambda>c. if regex_space c then QLatin1Char CHR ''_'' else c) filepath
      else filepath)"

text \<open>Lines 119 to 187: \<open>filepath\<close> and \<open>extension\<close> as they are at line 188, for a
  file path that line 115 has not rejected.\<close>

definition sanitize_filepath :: "environment \<Rightarrow> OrganizeFormat \<Rightarrow> qstring \<Rightarrow> qstring" where
  "sanitize_filepath env fmt filepath =
     replace_whitespaces fmt (fix_parts env (fixup_filepath (remove_characters env fmt filepath)))"

definition sanitize_extension ::
  "environment \<Rightarrow> OrganizeFormat \<Rightarrow> Song \<Rightarrow> qstring \<Rightarrow> qstring \<Rightarrow> qstring" where
  "sanitize_extension env fmt song extension filepath =
     fixup_extension song extension (remove_characters env fmt filepath)"

text \<open>Lines 119 to 191: the path that \<open>GetFilenameForSong\<close> returns.\<close>

definition sanitize ::
  "environment \<Rightarrow> OrganizeFormat \<Rightarrow> Song \<Rightarrow> qstring \<Rightarrow> qstring \<Rightarrow> qstring" where
  "sanitize env fmt song extension filepath =
     (if sanitize_extension env fmt song extension filepath \<noteq> []
      then sanitize_filepath env fmt filepath @ QLatin1String ''.'' @
           sanitize_extension env fmt song extension filepath
      else sanitize_filepath env fmt filepath)"

text \<open>The whole function; \<open>None\<close> when a \<open>TagValue\<close> has failed.\<close>

definition GetFilenameForSong ::
  "environment \<Rightarrow> OrganizeFormat \<Rightarrow> Song \<Rightarrow> qstring \<Rightarrow> GetFilenameForSongResult option" where
  "GetFilenameForSong env fmt song extension =
     (case ParseBlock env fmt (format fmt) song (Some False) of
        None \<Rightarrow> None
      | Some (parsed, unique_filename, _) \<Rightarrow>
          (let filepath = fallback_filepath song parsed
           in if rejected filepath then Some Rejected
              else Some (Result (sanitize env fmt song extension filepath)
                           (unique_filename = Some True))))"

text \<open>
  An instance of the parameters, for evaluation on concrete inputs: the dot as the
  one invalid prefix character (the comment at line 168 names it), the two slashes as
  invalid directory characters, the characters that file systems reserve as the
  problematic ones, everything but ASCII letters, digits and some punctuation as
  invalid on FAT, no transliteration, no decompositions, and the upper case of the
  ASCII letters.
\<close>

definition sample_environment :: environment where
  "sample_environment =
     \<lparr>kProblematicCharactersRegex = (\<lambda>c. c \<in> set (QLatin1String '':?*\"<>|'')),
      kInvalidFatCharactersRegex =
        (\<lambda>c. \<not> (is_letter c \<or> (0x30 \<le> c \<and> c \<le> 0x39) \<or>
                c \<in> set (QLatin1String ''!#$%&'()-@^_`{}~/. ''))),
      kInvalidDirCharactersRegex = (\<lambda>c. c = QLatin1Char CHR ''/'' \<or> c = QLatin1Char (CHR 0x5C)),
      kInvalidPrefixCharacters = ''.'',
      Transliterate = (\<lambda>s. s),
      decomposition = (\<lambda>c. []),
      toUpper = (\<lambda>c. if 0x61 \<le> c \<and> c \<le> 0x7A then c - 0x20 else c)\<rparr>"

definition sample_song :: Song where
  "sample_song =
     \<lparr>title = QLatin1String ''T'', album = QLatin1String ''X'', artist = QLatin1String ''...A'',
      composer = [], performer = [], grouping = [], lyrics = [], genre = [], comment = [],
      year = 0, effective_originalyear = 0, track = 7, disc = 0, length_nanosec = - 1,
      bitrate = 0, samplerate = 0, bitdepth = 0,
      url_toLocalFile = QLatin1String ''/m/s.mp3'',
      effective_albumartist = QLatin1String ''The  beatles'', is_compilation = False,
      basefilename = QLatin1String ''s.mp3''\<rparr>"

section \<open>Properties of templates and paths\<close>

text \<open>A percent sign at the index \<open>i\<close> that is not followed by a letter.\<close>

definition bare_percent_at :: "qstring \<Rightarrow> nat \<Rightarrow> bool" where
  "bare_percent_at block i \<longleftrightarrow>
     i < length block \<and> block ! i = QLatin1Char CHR ''%'' \<and>
     (Suc i < length block \<longrightarrow> \<not> is_letter (block ! Suc i))"

text \<open>No two whitespace characters next to each other.\<close>

fun nodouble :: "qstring \<Rightarrow> bool" where
  "nodouble (c # d # cs) \<longleftrightarrow> \<not> (isSpace c \<and> isSpace d) \<and> nodouble (d # cs)"
| "nodouble [c] \<longleftrightarrow> True"
| "nodouble [] \<longleftrightarrow> True"



section \<open>Matches and termination\<close>

lemma scan_Some:
  "scan m s i = Some (st, l) \<Longrightarrow> i \<le> st \<and> st - i < length s \<and> m (drop (st - i) s) = Some l"
proof (induction s arbitrary: i)
  case Nil
  then show ?case by simp
next
  case (Cons c cs)
  show ?case
  proof (cases "m (c # cs)")
    case None
    with Cons.prems have "scan m cs (Suc i) = Some (st, l)" by simp
    from Cons.IH [OF this] have "Suc i \<le> st" "st - Suc i < length cs"
      "m (drop (st - Suc i) cs) = Some l"
      by simp_all
    moreover from \<open>Suc i \<le> st\<close> have "st - i = Suc (st - Suc i)" by simp
    ultimately show ?thesis by simp
  next
    case (Some a)
    with Cons.prems show ?thesis by simp
  qed
qed

lemma regex_match_Some:
  assumes "regex_match m b pos = Some (st, l)"
  shows "pos \<le> st" and "st < length b" and "m (drop st b) = Some l"
proof -
  from assms have le: "pos \<le> length b" and sc: "scan m (drop pos b) pos = Some (st, l)"
    by (simp_all add: regex_match_def split: if_splits)
  note s = scan_Some [OF sc]
  from s show p: "pos \<le> st" by simp
  from s have "st - pos < length (drop pos b)" by blast
  then have "st - pos < length b - pos" by simp
  with p show "st < length b" by linarith
  from s have "m (drop (st - pos) (drop pos b)) = Some l" by blast
  moreover from p have "st - pos + pos = st" by simp
  ultimately show "m (drop st b) = Some l" by simp
qed

lemma kTagPattern_Some: "kTagPattern s = Some l \<Longrightarrow> 1 \<le> l \<and> l \<le> length s"
  by (cases s)
    (auto simp: kTagPattern_def split: if_splits intro: le_trans [OF length_takeWhile_le])

lemma kBlockPattern_Some: "kBlockPattern s = Some l \<Longrightarrow> 3 \<le> l \<and> l \<le> length s"
proof (cases s)
  case Nil
  then show "kBlockPattern s = Some l \<Longrightarrow> ?thesis" by (simp add: kBlockPattern_def)
next
  case (Cons c rest)
  assume a: "kBlockPattern s = Some l"
  from a Cons obtain d ds where d: "dropWhile not_brace rest = d # ds"
    and t: "takeWhile not_brace rest \<noteq> []" and l: "l = length (takeWhile not_brace rest) + 2"
    by (auto simp: kBlockPattern_def split: if_splits list.splits)
  have "length rest = length (takeWhile not_brace rest) + length (dropWhile not_brace rest)"
    by (metis length_append takeWhile_dropWhile_id)
  with d have "length (takeWhile not_brace rest) + 1 \<le> length rest" by simp
  moreover from t have "1 \<le> length (takeWhile not_brace rest)"
    by (cases "takeWhile not_brace rest") simp_all
  ultimately show ?thesis using l Cons by simp
qed

lemma tag_match_bounds:
  assumes "regex_match kTagPattern b pos = Some (st, l)"
  shows "pos \<le> st" and "1 \<le> l" and "st + l \<le> length b"
proof -
  note r = regex_match_Some [OF assms]
  from kTagPattern_Some [OF r(3)] r(2) show "1 \<le> l" "st + l \<le> length b" by auto
  show "pos \<le> st" by (rule r(1))
qed

lemma block_match_bounds:
  assumes "regex_match kBlockPattern b pos = Some (st, l)"
  shows "pos \<le> st" and "3 \<le> l" and "st + l \<le> length b"
proof -
  note r = regex_match_Some [OF assms]
  from kBlockPattern_Some [OF r(3)] r(2) show "3 \<le> l" "st + l \<le> length b" by auto
  show "pos \<le> st" by (rule r(1))
qed

lemma length_QString_replace:
  "pos + len \<le> length s \<Longrightarrow> length (QString_replace s pos len v) = length s - len + length v"
  by (simp add: QString_replace_def)

text \<open>Each round of the loop over the tags leaves less text after the position.\<close>

lemma tags_loop_dom_all: "All tags_loop_dom"
proof (relation "measure (\<lambda>(env, fmt, song, block, pos, have_tagdata, empty1). length block - pos)",
    goal_cases)
  case 1
  show ?case by simp
next
  case (2 env fmt song block pos have_tagdata empty1 x2 st l v)
  then have m: "regex_match kTagPattern block pos = Some (st, l)" by simp
  note b = tag_match_bounds [OF m]
  from b show ?case by (simp add: length_QString_replace)
qed

termination tags_loop
  by (rule tags_loop_dom_all)

declare tags_loop.simps [simp del]

text \<open>Each round of the loop over the blocks leaves less text after the position, and
  the block that is parsed recursively is shorter than what was left.\<close>

lemma ParseBlock_dom_all: "All ParseBlock_blocks_loop_dom"
proof (relation "measure (\<lambda>x. case x of
          Inl (env, fmt, block, song, have_tagdata) \<Rightarrow> 2 * length block + 1
        | Inr (env, fmt, song, block, pos, have_tagdata) \<Rightarrow> 2 * (length block - pos))",
    goal_cases)
  case 1
  show ?case by simp
next
  case (2 env fmt block song have_tagdata)
  show ?case by simp
next
  case (3 env fmt song block pos have_tagdata x2 st l)
  then have m: "regex_match kBlockPattern block pos = Some (st, l)" by simp
  note b = block_match_bounds [OF m]
  from b show ?case by simp
next
  case (4 env fmt song block pos have_tagdata x2 st l x2a v y have_tagdata1 empty1)
  then have m: "regex_match kBlockPattern block pos = Some (st, l)" by simp
  note b = block_match_bounds [OF m]
  from b show ?case by (simp add: length_QString_replace)
qed

termination ParseBlock
  by (rule ParseBlock_dom_all)

declare ParseBlock.simps [simp del] blocks_loop.simps [simp del]

text \<open>The definitions to unfold when a function is evaluated on a concrete input.\<close>

lemmas QL = QLatin1String_def QLatin1Char_def
lemmas match_defs = regex_match_def kBlockPattern_def kTagPattern_def not_brace_def is_letter_def
  QString_replace_def
lemmas sample_defs = sample_song_def sample_environment_def OrganizeFormat_new_def
lemmas TagValue_defs = TagValue_def field_value_def trimmed_def isSpace_def QString_number_def
  digits.simps Let_def remove_regex_the_def regex_space_def kUniqueTags_def
lemmas path_defs = fallback_filepath_def rejected_def QString_section_def
  QFileInfo_path_def QFileInfo_completeBaseName_def QFileInfo_suffix_def fileName_def
  beforeLast_def
lemmas sanitize_defs = sanitize_def sanitize_filepath_def sanitize_extension_def
  remove_characters_def fixup_extension_def fixup_filepath_def fix_parts_def
  replace_whitespaces_def simplified_def

section \<open>The template of an OrganizeFormat\<close>

text \<open>
  C10: \<open>set_format\<close> stores the string it is given with every backslash replaced by a
  slash, so the stored template has no backslash; the constructor stores its
  argument as it is, backslashes included.
\<close>

theorem set_format_backslash:
  "format (set_format v fmt) =
     map (\<lambda>c. if c = QLatin1Char (CHR 0x5C) then QLatin1Char CHR ''/'' else c) v \<and>
   QLatin1Char (CHR 0x5C) \<notin> set (format (set_format v fmt)) \<and>
   format (OrganizeFormat_new v) = v \<and>
   QLatin1Char (CHR 0x5C) \<in> set (format (OrganizeFormat_new (QLatin1String [CHR ''a'', CHR 0x5C, CHR ''b''])))"
  by (auto simp: set_format_def OrganizeFormat_new_def QLatin1Char_def QLatin1String_def)

theorem set_format_backslash_witness:
  "format (set_format (QLatin1String [CHR ''a'', CHR 0x5C, CHR ''b'']) (OrganizeFormat_new [])) = QLatin1String ''a/b'' \<and>
   format (OrganizeFormat_new (QLatin1String [CHR ''a'', CHR 0x5C, CHR ''b''])) = QLatin1String [CHR ''a'', CHR 0x5C, CHR ''b'']"
  using set_format_backslash [of "QLatin1String [CHR ''a'', CHR 0x5C, CHR ''b'']" "OrganizeFormat_new []"]
  by (simp add: QLatin1Char_def QLatin1String_def)

section \<open>Resolving tags\<close>

lemma trimmed_last: "trimmed s \<noteq> [] \<Longrightarrow> \<not> isSpace (last (trimmed s))"
  unfolding trimmed_def by (simp add: last_rev hd_dropWhile)

lemma regex_space_isSpace: "regex_space c \<Longrightarrow> isSpace c"
  by (auto simp: regex_space_def isSpace_def)

lemma remove_regex_the_nonempty:
  assumes "s \<noteq> []" "\<not> isSpace (last s)"
  shows "remove_regex_the s \<noteq> []"
proof (cases "remove_regex_the s = s")
  case True
  with assms show ?thesis by simp
next
  case False
  then obtain t h e w rest where s: "s = t # h # e # w # rest" and w: "regex_space w"
    and r: "remove_regex_the s = dropWhile regex_space rest"
    by (auto simp: remove_regex_the_def split: list.splits if_splits)
  from assms s w have "rest \<noteq> []" by (auto dest: regex_space_isSpace)
  with s have "last rest = last s" by simp
  with assms have "\<not> regex_space (last rest)" by (auto dest: regex_space_isSpace)
  with \<open>rest \<noteq> []\<close> have "dropWhile regex_space rest \<noteq> []"
    by (metis dropWhile_eq_Nil_conv last_in_set)
  with r show ?thesis by simp
qed

lemma field_value_total: "\<exists>v. field_value env tag song = Some v"
proof (cases "trimmed (effective_albumartist song) = []")
  case True
  then show ?thesis by (simp add: field_value_def)
next
  case False
  from remove_regex_the_nonempty [OF False trimmed_last [OF False]]
  obtain c cs where "remove_regex_the (trimmed (effective_albumartist song)) = c # cs"
    by (cases "remove_regex_the (trimmed (effective_albumartist song))") auto
  then show ?thesis by (simp add: field_value_def Let_def)
qed

lemma TagValue_total: "\<exists>v. TagValue env fmt tag song = Some v"
proof -
  from field_value_total obtain v where "field_value env tag song = Some v" by blast
  then show ?thesis by (simp add: TagValue_def Let_def)
qed

lemma remove_regex_the_strip:
  assumes "t = QLatin1Char CHR ''t'' \<or> t = QLatin1Char CHR ''T''"
    and "h = QLatin1Char CHR ''h'' \<or> h = QLatin1Char CHR ''H''"
    and "e = QLatin1Char CHR ''e'' \<or> e = QLatin1Char CHR ''E''"
    and "ws \<noteq> []" and "\<forall>w\<in>set ws. regex_space w" and "\<not> regex_space c"
  shows "remove_regex_the (t # h # e # ws @ c # rest) = c # rest"
proof -
  from assms(4) obtain w ws' where ws: "ws = w # ws'" by (cases ws) auto
  with assms(5) have w: "regex_space w" and ws': "\<forall>w\<in>set ws'. regex_space w" by auto
  from ws' assms(6) have "dropWhile regex_space (ws' @ c # rest) = c # rest"
    by (simp add: dropWhile_append2)
  with assms(1-3) w ws show ?thesis by (simp add: remove_regex_the_def)
qed

lemma remove_regex_the_keep:
  assumes "\<forall>t h e w rest. s = t # h # e # w # rest \<longrightarrow>
     \<not> ((t = QLatin1Char CHR ''t'' \<or> t = QLatin1Char CHR ''T'') \<and>
        (h = QLatin1Char CHR ''h'' \<or> h = QLatin1Char CHR ''H'') \<and>
        (e = QLatin1Char CHR ''e'' \<or> e = QLatin1Char CHR ''E'') \<and> regex_space w)"
  shows "remove_regex_the s = s"
  using assms by (auto simp: remove_regex_the_def split: list.splits)

lemma field_value_artistinitial:
  "field_value env (QLatin1String ''artistinitial'') song =
      (let value = trimmed (effective_albumartist song)
       in if value \<noteq> [] then
            (case remove_regex_the value of [] \<Rightarrow> None | c # _ \<Rightarrow> Some [toUpper env c])
          else Some value)"
  by (simp add: field_value_def QLatin1String_def QLatin1Char_def)

lemma TagValue_single:
  assumes "field_value env tag song = Some [u]" and "tag \<noteq> QLatin1String ''track''"
    and "u \<noteq> QLatin1Char CHR ''0''" and "\<not> kInvalidDirCharactersRegex env u"
    and "\<not> (remove_problematic fmt \<and> u = QLatin1Char CHR ''.'')" and "\<not> isSpace u"
  shows "TagValue env fmt tag song = Some [u]"
  using assms by (auto simp: TagValue_def Let_def QLatin1String_def trimmed_def)

text \<open>
  C6: \<open>TagValue\<close> of \<open>artistinitial\<close> returns a value for every song. The branch of
  the tag trims the effective album artist, removes a leading \<open>the\<close> (in any case)
  with the whitespace after it, and keeps the upper case of the first character: when
  the trimmed album artist is \<open>the\<close>, one or more whitespace characters \<open>ws\<close> and
  then a character \<open>c\<close> that is not whitespace, the value is the upper case of \<open>c\<close>;
  when it does not start with \<open>the\<close> and a whitespace character, the value is the
  upper case of its first character. The string that the first character is taken of
  is never empty, also for the album artist \<open>The \<close>, and an empty album artist gives
  the empty value. The one character passes through the cleanup at the end of
  \<open>TagValue\<close> unless that removes it.
\<close>

theorem TagValue_artistinitial:
  "(\<exists>v. TagValue env fmt (QLatin1String ''artistinitial'') song = Some v) \<and>
   field_value env (QLatin1String ''artistinitial'') song =
     Some (if trimmed (effective_albumartist song) = [] then []
           else [toUpper env (hd (remove_regex_the (trimmed (effective_albumartist song))))]) \<and>
   (trimmed (effective_albumartist song) \<noteq> [] \<longrightarrow>
      remove_regex_the (trimmed (effective_albumartist song)) \<noteq> []) \<and>
   (effective_albumartist song = [] \<longrightarrow>
      TagValue env fmt (QLatin1String ''artistinitial'') song = Some []) \<and>
   (effective_albumartist song = QLatin1String ''The '' \<longrightarrow>
      field_value env (QLatin1String ''artistinitial'') song = Some [toUpper env (QLatin1Char CHR ''T'')]) \<and>
   (trimmed (effective_albumartist song) = t # h # e # ws @ c # rest \<and>
    (t = QLatin1Char CHR ''t'' \<or> t = QLatin1Char CHR ''T'') \<and>
    (h = QLatin1Char CHR ''h'' \<or> h = QLatin1Char CHR ''H'') \<and>
    (e = QLatin1Char CHR ''e'' \<or> e = QLatin1Char CHR ''E'') \<and>
    ws \<noteq> [] \<and> (\<forall>w\<in>set ws. regex_space w) \<and> \<not> regex_space c \<longrightarrow>
      field_value env (QLatin1String ''artistinitial'') song = Some [toUpper env c]) \<and>
   (trimmed (effective_albumartist song) = c # rest \<and>
    (\<forall>h e w r. rest = h # e # w # r \<longrightarrow>
       \<not> ((c = QLatin1Char CHR ''t'' \<or> c = QLatin1Char CHR ''T'') \<and>
          (h = QLatin1Char CHR ''h'' \<or> h = QLatin1Char CHR ''H'') \<and>
          (e = QLatin1Char CHR ''e'' \<or> e = QLatin1Char CHR ''E'') \<and> regex_space w)) \<longrightarrow>
      field_value env (QLatin1String ''artistinitial'') song = Some [toUpper env c]) \<and>
   (field_value env (QLatin1String ''artistinitial'') song = Some [u] \<and>
    u \<noteq> QLatin1Char CHR ''0'' \<and> \<not> kInvalidDirCharactersRegex env u \<and>
    \<not> (remove_problematic fmt \<and> u = QLatin1Char CHR ''.'') \<and> \<not> isSpace u \<longrightarrow>
      TagValue env fmt (QLatin1String ''artistinitial'') song = Some [u])"
proof (intro conjI impI)
  show "\<exists>v. TagValue env fmt (QLatin1String ''artistinitial'') song = Some v"
    by (rule TagValue_total)
  have ne: "remove_regex_the (trimmed (effective_albumartist song)) \<noteq> []"
    if "trimmed (effective_albumartist song) \<noteq> []"
    using remove_regex_the_nonempty [OF that trimmed_last [OF that]] .
  then show "remove_regex_the (trimmed (effective_albumartist song)) \<noteq> []"
    if "trimmed (effective_albumartist song) \<noteq> []" using that .
  note tag = field_value_artistinitial [of env song]
  show "field_value env (QLatin1String ''artistinitial'') song =
     Some (if trimmed (effective_albumartist song) = [] then []
           else [toUpper env (hd (remove_regex_the (trimmed (effective_albumartist song))))])"
  proof (cases "trimmed (effective_albumartist song) = []")
    case True
    then show ?thesis by (simp add: tag)
  next
    case False
    from ne [OF False] show ?thesis using False
      by (cases "remove_regex_the (trimmed (effective_albumartist song))") (simp_all add: tag)
  qed
  show "TagValue env fmt (QLatin1String ''artistinitial'') song = Some []"
    if "effective_albumartist song = []"
    using that by (simp add: TagValue_def tag trimmed_def)
  show "field_value env (QLatin1String ''artistinitial'') song = Some [toUpper env (QLatin1Char CHR ''T'')]"
    if "effective_albumartist song = QLatin1String ''The ''"
    using that
    by (simp only: tag)
      (simp add: trimmed_def QLatin1String_def QLatin1Char_def isSpace_def remove_regex_the_def
        regex_space_def)
  show "field_value env (QLatin1String ''artistinitial'') song = Some [toUpper env c]"
    if "trimmed (effective_albumartist song) = t # h # e # ws @ c # rest \<and>
    (t = QLatin1Char CHR ''t'' \<or> t = QLatin1Char CHR ''T'') \<and>
    (h = QLatin1Char CHR ''h'' \<or> h = QLatin1Char CHR ''H'') \<and>
    (e = QLatin1Char CHR ''e'' \<or> e = QLatin1Char CHR ''E'') \<and>
    ws \<noteq> [] \<and> (\<forall>w\<in>set ws. regex_space w) \<and> \<not> regex_space c"
  proof -
    from that have "remove_regex_the (trimmed (effective_albumartist song)) = c # rest"
      using remove_regex_the_strip [of t h e ws c rest] by simp
    with that show ?thesis by (simp add: tag)
  qed
  show "field_value env (QLatin1String ''artistinitial'') song = Some [toUpper env c]"
    if "trimmed (effective_albumartist song) = c # rest \<and>
    (\<forall>h e w r. rest = h # e # w # r \<longrightarrow>
       \<not> ((c = QLatin1Char CHR ''t'' \<or> c = QLatin1Char CHR ''T'') \<and>
          (h = QLatin1Char CHR ''h'' \<or> h = QLatin1Char CHR ''H'') \<and>
          (e = QLatin1Char CHR ''e'' \<or> e = QLatin1Char CHR ''E'') \<and> regex_space w))"
  proof -
    from that have "remove_regex_the (c # rest) = c # rest"
      by (intro remove_regex_the_keep) auto
    with that show ?thesis by (simp add: tag)
  qed
  show "TagValue env fmt (QLatin1String ''artistinitial'') song = Some [u]"
    if "field_value env (QLatin1String ''artistinitial'') song = Some [u] \<and>
    u \<noteq> QLatin1Char CHR ''0'' \<and> \<not> kInvalidDirCharactersRegex env u \<and>
    \<not> (remove_problematic fmt \<and> u = QLatin1Char CHR ''.'') \<and> \<not> isSpace u"
    using that by (intro TagValue_single) (auto simp: QLatin1String_def)
qed

theorem TagValue_artistinitial_witness:
  "TagValue sample_environment (OrganizeFormat_new []) (QLatin1String ''artistinitial'') sample_song
     = Some (QLatin1String ''B'') \<and>
   field_value sample_environment (QLatin1String ''artistinitial'')
     (sample_song\<lparr>effective_albumartist := QLatin1String ''The ''\<rparr>) = Some (QLatin1String ''T'')"
proof
  have tr: "trimmed (effective_albumartist sample_song)
      = QLatin1Char CHR ''T'' # QLatin1Char CHR ''h'' # QLatin1Char CHR ''e'' #
        [QLatin1Char CHR '' '', QLatin1Char CHR '' ''] @ QLatin1Char CHR ''b'' # QLatin1String ''eatles''"
    by (simp add: sample_song_def trimmed_def isSpace_def QLatin1String_def QLatin1Char_def)
  have sp: "\<forall>w\<in>set [QLatin1Char CHR '' '', QLatin1Char CHR '' '']. regex_space w"
    "\<not> regex_space (QLatin1Char CHR ''b'')"
    by (simp_all add: regex_space_def QLatin1Char_def)
  note inst = TagValue_artistinitial [of sample_environment "OrganizeFormat_new []" sample_song
      "QLatin1Char CHR ''T''" "QLatin1Char CHR ''h''" "QLatin1Char CHR ''e''"
      "[QLatin1Char CHR '' '', QLatin1Char CHR '' '']" "QLatin1Char CHR ''b''"
      "QLatin1String ''eatles''" "QLatin1Char CHR ''B''"]
  note strip = inst [THEN conjunct2, THEN conjunct2, THEN conjunct2, THEN conjunct2,
      THEN conjunct2, THEN conjunct1]
  note clean = inst [THEN conjunct2, THEN conjunct2, THEN conjunct2, THEN conjunct2,
      THEN conjunct2, THEN conjunct2, THEN conjunct2]
  have up: "toUpper sample_environment (QLatin1Char CHR ''b'') = QLatin1Char CHR ''B''"
    by (simp add: sample_environment_def QLatin1Char_def)
  have "field_value sample_environment (QLatin1String ''artistinitial'') sample_song
      = Some [toUpper sample_environment (QLatin1Char CHR ''b'')]"
    by (rule mp [OF strip]) (simp add: tr sp)
  then have fv: "field_value sample_environment (QLatin1String ''artistinitial'') sample_song
      = Some [QLatin1Char CHR ''B'']" by (simp only: up)
  have ok: "QLatin1Char CHR ''B'' \<noteq> QLatin1Char CHR ''0''"
    "\<not> kInvalidDirCharactersRegex sample_environment (QLatin1Char CHR ''B'')"
    "\<not> remove_problematic (OrganizeFormat_new [])" "\<not> isSpace (QLatin1Char CHR ''B'')"
    by (simp_all add: sample_environment_def OrganizeFormat_new_def QLatin1Char_def isSpace_def)
  have "TagValue sample_environment (OrganizeFormat_new []) (QLatin1String ''artistinitial'') sample_song
     = Some [QLatin1Char CHR ''B'']"
    by (rule mp [OF clean]) (simp add: fv ok)
  then show "TagValue sample_environment (OrganizeFormat_new []) (QLatin1String ''artistinitial'') sample_song
     = Some (QLatin1String ''B'')" by (simp add: QLatin1String_def)
next
  have "effective_albumartist (sample_song\<lparr>effective_albumartist := QLatin1String ''The ''\<rparr>)
      = QLatin1String ''The ''" by simp
  with TagValue_artistinitial [of sample_environment "OrganizeFormat_new []"
      "sample_song\<lparr>effective_albumartist := QLatin1String ''The ''\<rparr>"]
  have "field_value sample_environment (QLatin1String ''artistinitial'')
     (sample_song\<lparr>effective_albumartist := QLatin1String ''The ''\<rparr>)
     = Some [toUpper sample_environment (QLatin1Char CHR ''T'')]" by blast
  then show "field_value sample_environment (QLatin1String ''artistinitial'')
     (sample_song\<lparr>effective_albumartist := QLatin1String ''The ''\<rparr>) = Some (QLatin1String ''T'')"
    by (simp add: sample_environment_def QLatin1String_def QLatin1Char_def)
qed

lemma digit_char: "n < 10 \<Longrightarrow> 0x30 \<le> (of_nat (48 + n) :: qchar) \<and> (of_nat (48 + n) :: qchar) \<le> 0x39"
proof -
  assume "n < 10"
  then have "unat (of_nat (48 + n) :: qchar) = 48 + n"
    by (simp only: unat_of_nat) simp
  with \<open>n < 10\<close> show ?thesis by (simp only: word_le_nat_alt) simp
qed

lemma digits_range: "c \<in> set (digits n) \<Longrightarrow> 0x30 \<le> c \<and> c \<le> 0x39"
proof (induction n arbitrary: c rule: digits.induct)
  case (1 n)
  show ?case
  proof (cases "n < 10")
    case True
    with "1.prems" have "c = of_nat (48 + n)" by (subst (asm) digits.simps) simp
    with digit_char [OF True] show ?thesis by simp
  next
    case False
    have m: "n mod 10 < 10" by simp
    from False "1.prems" have "c \<in> set (digits (n div 10)) \<or> c = of_nat (48 + n mod 10)"
      by (subst (asm) digits.simps) auto
    with "1.IH" [OF False] digit_char [OF m] show ?thesis by auto
  qed
qed

lemma digits_nonempty: "digits n \<noteq> []"
  by (subst digits.simps) simp

lemma length_digits_one: "length (digits n) = 1 \<longleftrightarrow> n < 10"
proof (cases "n < 10")
  case True
  then show ?thesis by (subst digits.simps) simp
next
  case False
  then have "length (digits n) = length (digits (n div 10)) + 1"
    by (subst digits.simps) simp
  with digits_nonempty [of "n div 10"] False show ?thesis
    by (cases "digits (n div 10)") simp_all
qed

lemma dropWhile_none: "\<forall>c\<in>set xs. \<not> P c \<Longrightarrow> dropWhile P xs = xs"
  by (cases xs) simp_all

lemma trimmed_id: "\<forall>c\<in>set s. \<not> isSpace c \<Longrightarrow> trimmed s = s"
proof -
  assume a: "\<forall>c\<in>set s. \<not> isSpace c"
  then have "dropWhile isSpace s = s" by (rule dropWhile_none)
  moreover from a have "dropWhile isSpace (rev s) = rev s" by (intro dropWhile_none) simp
  ultimately show ?thesis by (simp add: trimmed_def)
qed

lemma digit_not_space: "0x30 \<le> c \<and> c \<le> 0x39 \<Longrightarrow> \<not> isSpace (c :: qchar)"
  unfolding isSpace_def word_le_nat_alt by auto

lemma digit_not_dot: "0x30 \<le> c \<and> c \<le> 0x39 \<Longrightarrow> c \<noteq> (QLatin1Char CHR ''.'' :: qchar)"
  by (auto simp: QLatin1Char_def)

lemma filter_all: "\<forall>c\<in>set xs. P c \<Longrightarrow> filter P xs = xs"
  by (induction xs) simp_all

lemma clean_digits:
  assumes env: "\<forall>c. 0x30 \<le> c \<and> c \<le> 0x39 \<longrightarrow> \<not> kInvalidDirCharactersRegex env c"
    and s: "\<forall>c\<in>set s. 0x30 \<le> c \<and> c \<le> 0x39"
  shows "trimmed (if rp then filter (\<lambda>c. c \<noteq> QLatin1Char CHR ''.'')
                                (filter (\<lambda>c. \<not> kInvalidDirCharactersRegex env c) s)
                  else filter (\<lambda>c. \<not> kInvalidDirCharactersRegex env c) s) = s"
proof -
  from env s have 1: "filter (\<lambda>c. \<not> kInvalidDirCharactersRegex env c) s = s"
    by (intro filter_all) blast
  from s digit_not_dot have "\<forall>c\<in>set s. c \<noteq> QLatin1Char CHR ''.''" by blast
  then have 2: "filter (\<lambda>c. c \<noteq> QLatin1Char CHR ''.'') s = s"
    by (rule filter_all)
  from s digit_not_space have "\<forall>c\<in>set s. \<not> isSpace c" by blast
  then have 3: "trimmed s = s"
    by (rule trimmed_id)
  from 1 2 3 show ?thesis by simp
qed

lemma field_value_track:
  "field_value env (QLatin1String ''track'') song = Some (QString_number (track song))"
  by (simp add: field_value_def QLatin1String_def QLatin1Char_def)

lemma QString_number_one:
  assumes "length (QString_number n) = 1"
  shows "\<forall>c\<in>set (QString_number n). 0x30 \<le> c \<and> c \<le> 0x39"
proof (cases "n < 0")
  case True
  with assms digits_nonempty [of "nat (- n)"] show ?thesis
    by (simp add: QString_number_def)
next
  case False
  then show ?thesis by (auto simp: QString_number_def dest: digits_range)
qed

lemma TagValue_track_value:
  "TagValue env fmt (QLatin1String ''track'') song =
     (let value1 = (if QString_number (track song) = QLatin1String ''0'' \<or>
                       QString_number (track song) = QLatin1String ''-1''
                    then [] else QString_number (track song));
          value2 = (if length value1 = 1 then QLatin1Char CHR ''0'' # value1 else value1)
      in Some (trimmed (if remove_problematic fmt
           then filter (\<lambda>c. c \<noteq> QLatin1Char CHR ''.'')
                  (filter (\<lambda>c. \<not> kInvalidDirCharactersRegex env c) value2)
           else filter (\<lambda>c. \<not> kInvalidDirCharactersRegex env c) value2)))"
  by (simp add: TagValue_def field_value_track Let_def)

text \<open>
  C5: provided no digit is an invalid directory character, \<open>TagValue\<close> of \<open>track\<close>
  is \<open>07\<close> for the track 7 and \<open>12\<close> for the track 12; a track number printed with
  one character other than \<open>0\<close> gets a \<open>0\<close> in front; a track number printed as \<open>0\<close>
  or \<open>-1\<close> gives the empty value, which is not padded.
\<close>

theorem TagValue_track:
  assumes env: "\<forall>c. 0x30 \<le> c \<and> c \<le> 0x39 \<longrightarrow> \<not> kInvalidDirCharactersRegex env c"
  shows "(track song = 7 \<longrightarrow>
            TagValue env fmt (QLatin1String ''track'') song = Some (QLatin1String ''07'')) \<and>
         (track song = 12 \<longrightarrow>
            TagValue env fmt (QLatin1String ''track'') song = Some (QLatin1String ''12'')) \<and>
         (length (QString_number (track song)) = 1 \<and>
          QString_number (track song) \<noteq> QLatin1String ''0'' \<longrightarrow>
            TagValue env fmt (QLatin1String ''track'') song =
              Some (QLatin1Char CHR ''0'' # QString_number (track song))) \<and>
         (QString_number (track song) = QLatin1String ''0'' \<or>
          QString_number (track song) = QLatin1String ''-1'' \<longrightarrow>
            TagValue env fmt (QLatin1String ''track'') song = Some [])"
proof (intro conjI impI)
  have zero: "0x30 \<le> (QLatin1Char CHR ''0'') \<and> QLatin1Char CHR ''0'' \<le> 0x39"
    by (simp add: QLatin1Char_def)
  show one: "TagValue env fmt (QLatin1String ''track'') song =
      Some (QLatin1Char CHR ''0'' # QString_number (track song))"
    if h: "length (QString_number (track song)) = 1 \<and>
      QString_number (track song) \<noteq> QLatin1String ''0''"
  proof -
    from h have ne: "QString_number (track song) \<noteq> QLatin1String ''-1''"
      by (auto simp: QLatin1String_def)
    from h have "length (QString_number (track song)) = 1" by simp
    from QString_number_one [OF this] zero
    have "\<forall>c\<in>set (QLatin1Char CHR ''0'' # QString_number (track song)). 0x30 \<le> c \<and> c \<le> 0x39"
      by simp
    note cd = clean_digits [OF env this, of "remove_problematic fmt"]
    from h ne have "TagValue env fmt (QLatin1String ''track'') song =
      Some (trimmed (if remove_problematic fmt
           then filter (\<lambda>c. c \<noteq> QLatin1Char CHR ''.'')
                  (filter (\<lambda>c. \<not> kInvalidDirCharactersRegex env c)
                     (QLatin1Char CHR ''0'' # QString_number (track song)))
           else filter (\<lambda>c. \<not> kInvalidDirCharactersRegex env c)
                  (QLatin1Char CHR ''0'' # QString_number (track song))))"
      by (simp add: TagValue_track_value Let_def del: filter.simps filter_filter
          split del: if_split cong: if_cong)
    then show ?thesis by (simp only: cd)
  qed
  show "TagValue env fmt (QLatin1String ''track'') song = Some (QLatin1String ''07'')"
    if "track song = 7"
  proof -
    from that have "QString_number (track song) = QLatin1String ''7''"
      by (simp add: QString_number_def digits.simps QLatin1String_def QLatin1Char_def)
    with one show ?thesis by (simp add: QLatin1String_def QLatin1Char_def)
  qed
  show "TagValue env fmt (QLatin1String ''track'') song = Some (QLatin1String ''12'')"
    if "track song = 12"
  proof -
    from that have n: "QString_number (track song) = QLatin1String ''12''"
      by (simp add: QString_number_def digits.simps QLatin1String_def QLatin1Char_def)
    have "\<forall>c\<in>set (QLatin1String ''12''). 0x30 \<le> c \<and> c \<le> 0x39"
      by (simp add: QLatin1String_def QLatin1Char_def)
    note cd = clean_digits [OF env this, of "remove_problematic fmt"]
    have ne: "QLatin1String ''12'' \<noteq> QLatin1String ''0''"
      "QLatin1String ''12'' \<noteq> QLatin1String ''-1''" "length (QLatin1String ''12'') = 2"
      by (simp_all add: QLatin1String_def QLatin1Char_def)
    have "TagValue env fmt (QLatin1String ''track'') song =
      Some (trimmed (if remove_problematic fmt
           then filter (\<lambda>c. c \<noteq> QLatin1Char CHR ''.'')
                  (filter (\<lambda>c. \<not> kInvalidDirCharactersRegex env c) (QLatin1String ''12''))
           else filter (\<lambda>c. \<not> kInvalidDirCharactersRegex env c) (QLatin1String ''12'')))"
      by (simp add: TagValue_track_value n ne Let_def del: filter.simps filter_filter
          split del: if_split cong: if_cong)
    then show ?thesis by (simp only: cd)
  qed
  show "TagValue env fmt (QLatin1String ''track'') song = Some []"
    if "QString_number (track song) = QLatin1String ''0'' \<or>
        QString_number (track song) = QLatin1String ''-1''"
    using that by (auto simp: TagValue_track_value trimmed_def)
qed

theorem TagValue_track_witness:
  "TagValue sample_environment (OrganizeFormat_new []) (QLatin1String ''track'') sample_song
     = Some (QLatin1String ''07'') \<and>
   TagValue sample_environment (OrganizeFormat_new []) (QLatin1String ''track'')
     (sample_song\<lparr>track := 12\<rparr>) = Some (QLatin1String ''12'') \<and>
   TagValue sample_environment (OrganizeFormat_new []) (QLatin1String ''track'')
     (sample_song\<lparr>track := 0\<rparr>) = Some []"
proof -
  have env: "\<forall>c. 0x30 \<le> c \<and> c \<le> 0x39 \<longrightarrow> \<not> kInvalidDirCharactersRegex sample_environment c"
    by (auto simp: sample_environment_def QLatin1Char_def)
  have 1: "track sample_song = 7" by (simp add: sample_song_def)
  have 2: "track (sample_song\<lparr>track := 12\<rparr>) = 12" by simp
  have 3: "QString_number (track (sample_song\<lparr>track := 0\<rparr>)) = QLatin1String ''0''"
    by (simp add: QString_number_def digits.simps QLatin1String_def QLatin1Char_def)
  from TagValue_track [OF env, of sample_song "OrganizeFormat_new []"] 1
    TagValue_track [OF env, of "sample_song\<lparr>track := 12\<rparr>" "OrganizeFormat_new []"] 2
    TagValue_track [OF env, of "sample_song\<lparr>track := 0\<rparr>" "OrganizeFormat_new []"] 3
  show ?thesis by blast
qed

section \<open>Evaluating templates\<close>

lemma scan_None: "scan m s k = None \<Longrightarrow> j < length s \<Longrightarrow> m (drop j s) = None"
proof (induction s arbitrary: k j)
  case Nil
  then show ?case by simp
next
  case (Cons c cs)
  from Cons.prems(1) have h: "m (c # cs) = None" and t: "scan m cs (Suc k) = None"
    by (simp_all split: option.splits)
  show ?case
  proof (cases j)
    case 0
    with h show ?thesis by simp
  next
    case (Suc j')
    with Cons.prems(2) Cons.IH [OF t, of j'] show ?thesis by simp
  qed
qed

lemma scan_leftmost: "scan m s k = Some (st, l) \<Longrightarrow> j < st - k \<Longrightarrow> m (drop j s) = None"
proof (induction s arbitrary: k j)
  case Nil
  then show ?case by simp
next
  case (Cons c cs)
  show ?case
  proof (cases "m (c # cs)")
    case None
    with Cons.prems(1) have t: "scan m cs (Suc k) = Some (st, l)" by simp
    show ?thesis
    proof (cases j)
      case 0
      with None show ?thesis by simp
    next
      case (Suc j')
      with Cons.prems(2) have "j' < st - Suc k" by simp
      from Cons.IH [OF t this] Suc show ?thesis by simp
    qed
  next
    case (Some a)
    with Cons.prems show ?thesis by simp
  qed
qed

lemma scan_intro:
  "m (drop n s) = Some l \<Longrightarrow> n < length s \<Longrightarrow> (\<forall>j<n. m (drop j s) = None)
    \<Longrightarrow> scan m s k = Some (k + n, l)"
proof (induction s arbitrary: k n)
  case Nil
  then show ?case by simp
next
  case (Cons c cs)
  show ?case
  proof (cases n)
    case 0
    with Cons.prems show ?thesis by simp
  next
    case (Suc n')
    with Cons.prems(3) have "m (drop 0 (c # cs)) = None" by blast
    then have h: "m (c # cs) = None" by simp
    from Suc Cons.prems have a: "m (drop n' cs) = Some l" "n' < length cs" by simp_all
    have b: "\<forall>j<n'. m (drop j cs) = None"
    proof (intro allI impI)
      fix j assume "j < n'"
      with Suc have "Suc j < n" by simp
      with Cons.prems(3) have "m (drop (Suc j) (c # cs)) = None" by blast
      then show "m (drop j cs) = None" by simp
    qed
    from Cons.IH [OF a b, of "Suc k"] h Suc show ?thesis by simp
  qed
qed

lemma regex_match_leftmost:
  assumes "regex_match m b pos = Some (st, l)" "pos \<le> j" "j < st"
  shows "m (drop j b) = None"
proof -
  from assms(1) have sc: "scan m (drop pos b) pos = Some (st, l)"
    by (simp add: regex_match_def split: if_splits)
  from assms have "j - pos < st - pos" by simp
  from scan_leftmost [OF sc this] assms(2) show ?thesis by simp
qed

lemma regex_match_None:
  assumes "regex_match m b pos = None" "pos \<le> j" "j < length b"
  shows "m (drop j b) = None"
proof -
  from assms have sc: "scan m (drop pos b) pos = None"
    by (simp add: regex_match_def split: if_splits)
  from assms have "j - pos < length (drop pos b)" by simp
  from scan_None [OF sc this] assms(2) show ?thesis by simp
qed

lemma regex_match_intro:
  assumes "m (drop st b) = Some l" "pos \<le> st" "st < length b"
    and "\<forall>j. pos \<le> j \<and> j < st \<longrightarrow> m (drop j b) = None"
  shows "regex_match m b pos = Some (st, l)"
proof -
  from assms(1,2) have a: "m (drop (st - pos) (drop pos b)) = Some l" by simp
  from assms(2,3) have b: "st - pos < length (drop pos b)" by simp
  have c: "\<forall>j < (st - pos). m (drop j (drop pos b)) = None"
  proof (intro allI impI)
    fix j assume "j < st - pos"
    then have "pos \<le> j + pos \<and> j + pos < st" by simp
    with assms(4) have "m (drop (j + pos) b) = None" by blast
    then show "m (drop j (drop pos b)) = None" by simp
  qed
  from scan_intro [OF a b c, of pos] assms(2,3) show ?thesis
    by (simp add: regex_match_def)
qed

lemma kTagPattern_drop:
  "i < length b \<Longrightarrow> kTagPattern (drop i b) =
     (if b ! i = QLatin1Char CHR ''%''
      then Some (1 + length (takeWhile is_letter (drop (Suc i) b))) else None)"
  by (simp add: kTagPattern_def Cons_nth_drop_Suc [symmetric])

lemma bare_percent_match:
  assumes "bare_percent_at b i"
  shows "kTagPattern (drop i b) = Some 1"
proof -
  from assms have i: "i < length b" and p: "b ! i = QLatin1Char CHR ''%''"
    and n: "Suc i < length b \<longrightarrow> \<not> is_letter (b ! Suc i)"
    by (simp_all add: bare_percent_at_def)
  have "takeWhile is_letter (drop (Suc i) b) = []"
  proof (cases "Suc i < length b")
    case True
    with n show ?thesis by (simp add: Cons_nth_drop_Suc [symmetric])
  next
    case False
    then show ?thesis by simp
  qed
  with i p show ?thesis by (simp add: kTagPattern_drop)
qed

lemma TagValue_empty_name: "TagValue env fmt [] song = Some []"
  by (simp add: TagValue_def field_value_def QLatin1String_def trimmed_def)

lemma tags_loop_total: "\<exists>r. tags_loop env fmt song block pos have_tagdata empty1 = Some r"
proof (induction env fmt song block pos have_tagdata empty1 rule: tags_loop.induct)
  case (1 env fmt song block pos have_tagdata empty1)
  show ?case
  proof (cases "regex_match kTagPattern block pos")
    case None
    then show ?thesis by (simp add: tags_loop.simps)
  next
    case (Some x)
    obtain st l where x: "x = (st, l)" by (cases x)
    obtain v where v: "TagValue env fmt (take (l - 1) (drop (st + 1) block)) song = Some v"
      using TagValue_total by blast
    from "1.IH" [OF Some x [symmetric] v] Some x v show ?thesis
      by (simp add: tags_loop.simps [of _ _ _ block])
  qed
qed

lemma tags_loop_step:
  assumes "regex_match kTagPattern block pos = Some (st, l)"
    and "TagValue env fmt (take (l - 1) (drop (st + 1) block)) song = Some v"
  shows "tags_loop env fmt song block pos have_tagdata empty1 =
     tags_loop env fmt song (QString_replace block st l v) (st + length v)
       (if v \<noteq> [] \<and> have_tagdata \<noteq> None \<and>
           take (l - 1) (drop (st + 1) block) \<in> set kUniqueTags
        then Some True else have_tagdata)
       (if v = [] then True else empty1)"
  by (subst tags_loop.simps) (simp only: assms option.case prod.case)

lemma tags_loop_flag:
  "tags_loop env fmt song block pos have_tagdata empty1 = Some (b', h', e') \<Longrightarrow> empty1 \<Longrightarrow> e'"
proof (induction env fmt song block pos have_tagdata empty1 arbitrary: b' h' e'
    rule: tags_loop.induct)
  case (1 env fmt song block pos have_tagdata empty1)
  show ?case
  proof (cases "regex_match kTagPattern block pos")
    case None
    with "1.prems" show ?thesis by (simp add: tags_loop.simps)
  next
    case (Some x)
    obtain st l where x: "x = (st, l)" by (cases x)
    obtain v where v: "TagValue env fmt (take (l - 1) (drop (st + 1) block)) song = Some v"
      using TagValue_total by blast
    from Some x have m: "regex_match kTagPattern block pos = Some (st, l)" by simp
    from "1.prems"(1) have r: "tags_loop env fmt song (QString_replace block st l v) (st + length v)
       (if v \<noteq> [] \<and> have_tagdata \<noteq> None \<and>
           take (l - 1) (drop (st + 1) block) \<in> set kUniqueTags
        then Some True else have_tagdata)
       (if v = [] then True else empty1) = Some (b', h', e')"
      by (simp only: tags_loop_step [OF m v])
    from "1.prems"(2) have "if v = [] then True else empty1" by simp
    from "1.IH" [OF Some x [symmetric] v r this] show ?thesis .
  qed
qed

lemma takeWhile_letters:
  "j < length (takeWhile is_letter xs) \<Longrightarrow> is_letter (xs ! j)"
  by (metis nth_mem set_takeWhileD takeWhile_nth)

lemma tag_match_letters:
  assumes "regex_match kTagPattern b pos = Some (st, l)" "st < j" "j < st + l"
  shows "is_letter (b ! j)"
proof -
  note r = regex_match_Some [OF assms(1)]
  from r(2,3) have l: "l = 1 + length (takeWhile is_letter (drop (Suc st) b))"
    by (simp add: kTagPattern_drop split: if_splits)
  with assms have "j - Suc st < length (takeWhile is_letter (drop (Suc st) b))" by simp
  from takeWhile_letters [OF this] have "is_letter (drop (Suc st) b ! (j - Suc st))" .
  moreover from tag_match_bounds [OF assms(1)] assms have "Suc st + (j - Suc st) \<le> length b"
    by simp
  ultimately show ?thesis using assms(2) by simp
qed

lemma not_letter_percent: "\<not> is_letter (QLatin1Char CHR ''%'')"
  by (simp add: is_letter_def QLatin1Char_def)

lemma QString_replace_nth:
  assumes "st + l \<le> length b" "st + l \<le> j"
  shows "QString_replace b st l v ! (j - l + length v) = b ! j"
proof -
  define k where "k = j - (st + l)"
  from assms have st: "length (take st b) = st" by simp
  from assms have j: "j - l + length v = length (take st b) + (length v + k)"
    by (simp add: k_def)
  have "(take st b @ v @ drop (st + l) b) ! (length (take st b) + (length v + k))
      = (v @ drop (st + l) b) ! (length v + k)"
    by (rule nth_append_length_plus)
  also have "\<dots> = drop (st + l) b ! k" by (rule nth_append_length_plus)
  also from assms have "\<dots> = b ! j" by (simp add: k_def)
  finally show ?thesis by (simp only: QString_replace_def j)
qed

lemma bare_percent_shift:
  assumes "bare_percent_at b i" "st + l \<le> i" "st + l \<le> length b"
  shows "bare_percent_at (QString_replace b st l v) (i - l + length v)"
proof -
  define i' where "i' = i - l + length v"
  from assms(1) have i: "i < length b" and p: "b ! i = QLatin1Char CHR ''%''"
    and n: "Suc i < length b \<longrightarrow> \<not> is_letter (b ! Suc i)"
    by (simp_all add: bare_percent_at_def)
  have len: "length (QString_replace b st l v) = length b - l + length v"
    using assms(3) by (rule length_QString_replace)
  have 1: "QString_replace b st l v ! i' = b ! i"
    unfolding i'_def using assms(3,2) by (rule QString_replace_nth)
  from assms(2) have s: "st + l \<le> Suc i" by simp
  from assms(2) have "Suc i' = Suc i - l + length v" by (simp add: i'_def)
  with QString_replace_nth [OF assms(3) s, of v]
  have 2: "QString_replace b st l v ! Suc i' = b ! Suc i" by simp
  from i assms(2) have a: "i' < length (QString_replace b st l v)"
    by (simp add: len i'_def)
  from assms(2) have b: "Suc i' < length (QString_replace b st l v) \<Longrightarrow> Suc i < length b"
    by (simp add: len i'_def)
  from a b p n show ?thesis
    unfolding bare_percent_at_def i'_def [symmetric] by (auto simp only: 1 2)
qed

lemma tags_loop_bare_percent:
  "tags_loop env fmt song block pos have_tagdata empty1 = Some (b', h', e') \<Longrightarrow>
   bare_percent_at block i \<Longrightarrow> pos \<le> i \<Longrightarrow> e'"
proof (induction env fmt song block pos have_tagdata empty1 arbitrary: b' h' e' i
    rule: tags_loop.induct)
  case (1 env fmt song block pos have_tagdata empty1)
  note bare = bare_percent_match [OF "1.prems"(2)]
  from "1.prems"(2) have i: "i < length block" and p: "block ! i = QLatin1Char CHR ''%''"
    by (simp_all add: bare_percent_at_def)
  show ?case
  proof (cases "regex_match kTagPattern block pos")
    case None
    from regex_match_None [OF None "1.prems"(3) i] bare show ?thesis by simp
  next
    case (Some x)
    obtain st l where x: "x = (st, l)" by (cases x)
    obtain v where v: "TagValue env fmt (take (l - 1) (drop (st + 1) block)) song = Some v"
      using TagValue_total by blast
    from Some x have m: "regex_match kTagPattern block pos = Some (st, l)" by simp
    from "1.prems"(1) have r: "tags_loop env fmt song (QString_replace block st l v) (st + length v)
       (if v \<noteq> [] \<and> have_tagdata \<noteq> None \<and>
           take (l - 1) (drop (st + 1) block) \<in> set kUniqueTags
        then Some True else have_tagdata)
       (if v = [] then True else empty1) = Some (b', h', e')"
      by (simp only: tags_loop_step [OF m v])
    have le: "st \<le> i"
    proof (rule ccontr)
      assume "\<not> st \<le> i"
      then have "i < st" by simp
      from regex_match_leftmost [OF m "1.prems"(3) this] bare show False by simp
    qed
    show ?thesis
    proof (cases "st = i")
      case True
      with regex_match_Some(3) [OF m] bare have "l = 1" by simp
      with v have "v = []" by (simp add: TagValue_empty_name)
      with r show ?thesis by (auto dest: tags_loop_flag)
    next
      case False
      with le have lt: "st < i" by simp
      have ge: "st + l \<le> i"
      proof (rule ccontr)
        assume "\<not> st + l \<le> i"
        then have "i < st + l" by simp
        from tag_match_letters [OF m lt this] p not_letter_percent show False by simp
      qed
      note b = tag_match_bounds [OF m]
      have sh: "bare_percent_at (QString_replace block st l v) (i - l + length v)"
        using "1.prems"(2) ge b(3) by (rule bare_percent_shift)
      from ge have "st + length v \<le> i - l + length v" by simp
      from "1.IH" [OF Some x [symmetric] v r sh this] show ?thesis .
    qed
  qed
qed

lemma kBlockPattern_drop:
  assumes "regex_match kBlockPattern b pos = Some (st, l)"
  shows "b ! st = QLatin1Char CHR ''{''"
    and "take (l - 2) (drop (st + 1) b) = takeWhile not_brace (drop (Suc st) b)"
proof -
  note r = regex_match_Some [OF assms]
  from r(2) have d: "drop st b = b ! st # drop (Suc st) b"
    by (simp add: Cons_nth_drop_Suc)
  from r(3) show "b ! st = QLatin1Char CHR ''{''"
    by (simp add: d kBlockPattern_def split: if_splits)
  from r(3) have "l = length (takeWhile not_brace (drop (Suc st) b)) + 2"
    by (simp add: d kBlockPattern_def split: if_splits list.splits)
  then have "take (l - 2) (drop (st + 1) b)
      = take (length (takeWhile not_brace (drop (Suc st) b))) (drop (Suc st) b)" by simp
  also have "\<dots> = takeWhile not_brace (drop (Suc st) b)"
    by (metis append_eq_conv_conj takeWhile_dropWhile_id)
  finally show "take (l - 2) (drop (st + 1) b) = takeWhile not_brace (drop (Suc st) b)" .
qed

lemma captured_no_brace:
  assumes "regex_match kBlockPattern b pos = Some (st, l)"
  shows "\<forall>c\<in>set (take (l - 2) (drop (st + 1) b)). not_brace c"
  unfolding kBlockPattern_drop(2) [OF assms] by (auto dest: set_takeWhileD)

lemma no_block_match:
  assumes "\<forall>c\<in>set s. not_brace c"
  shows "regex_match kBlockPattern s pos = None"
proof (cases "regex_match kBlockPattern s pos")
  case None
  then show ?thesis .
next
  case (Some x)
  obtain st l where x: "x = (st, l)" by (cases x)
  with Some have m: "regex_match kBlockPattern s pos = Some (st, l)" by simp
  from kBlockPattern_drop(1) [OF m] regex_match_Some(2) [OF m] assms
  have "not_brace (QLatin1Char CHR ''{'')" by (metis nth_mem)
  then show ?thesis by (simp add: not_brace_def)
qed

lemma blocks_loop_step:
  assumes "regex_match kBlockPattern block pos = Some (st, l)"
    and "ParseBlock env fmt (take (l - 2) (drop (st + 1) block)) song have_tagdata
          = Some (v, h1, e1)"
  shows "blocks_loop env fmt song block pos have_tagdata =
     blocks_loop env fmt song (QString_replace block st l (if e1 then [] else v))
       (st + length (if e1 then [] else v)) h1"
  by (subst blocks_loop.simps) (simp only: assms option.case prod.case)

lemma ParseBlock_no_brace:
  assumes "\<forall>c\<in>set s. not_brace c"
  shows "ParseBlock env fmt s song have_tagdata = tags_loop env fmt song s 0 have_tagdata False"
proof -
  have "blocks_loop env fmt song s 0 have_tagdata = Some (s, have_tagdata)"
    by (subst blocks_loop.simps) (simp add: no_block_match [OF assms])
  then show ?thesis by (simp add: ParseBlock.simps [of _ _ s])
qed

lemma blocks_loop_total:
  "\<exists>r. blocks_loop env fmt song block pos have_tagdata = Some r"
proof (induction "length block - pos" arbitrary: block pos have_tagdata rule: less_induct)
  case less
  show ?case
  proof (cases "regex_match kBlockPattern block pos")
    case None
    then show ?thesis by (simp add: blocks_loop.simps)
  next
    case (Some x)
    obtain st l where x: "x = (st, l)" by (cases x)
    with Some have m: "regex_match kBlockPattern block pos = Some (st, l)" by simp
    note b = block_match_bounds [OF m]
    from tags_loop_total obtain v h1 e1
      where "tags_loop env fmt song (take (l - 2) (drop (st + 1) block)) 0 have_tagdata False
        = Some (v, h1, e1)" by (metis prod_cases3)
    then have p: "ParseBlock env fmt (take (l - 2) (drop (st + 1) block)) song have_tagdata
        = Some (v, h1, e1)"
      by (simp only: ParseBlock_no_brace [OF captured_no_brace [OF m]])
    define v' where "v' = (if e1 then [] else v)"
    from b have "length (QString_replace block st l v') - (st + length v') < length block - pos"
      by (simp add: length_QString_replace)
    from less [OF this] show ?thesis
      by (simp add: blocks_loop_step [OF m p] v'_def)
  qed
qed

lemma ParseBlock_total: "\<exists>r. ParseBlock env fmt block song have_tagdata = Some r"
proof -
  from blocks_loop_total obtain b1 h1
    where "blocks_loop env fmt song block 0 have_tagdata = Some (b1, h1)" by fastforce
  with tags_loop_total [of env fmt song b1 0 h1 False] show ?thesis
    by (simp add: ParseBlock.simps [of _ _ block])
qed

lemma drop_QString_replace:
  "st + l \<le> length b \<Longrightarrow> drop (st + length v) (QString_replace b st l v) = drop (st + l) b"
  by (simp add: QString_replace_def)

lemma markers_decrease:
  assumes "pos \<le> st" "1 \<le> l" "st + l \<le> length b" "b ! st = c"
  shows "count_list (drop (st + length v) (QString_replace b st l v)) c < count_list (drop pos b) c"
proof -
  from assms(1) have "drop (st - pos) (drop pos b) = drop st b" by simp
  with append_take_drop_id [of "st - pos" "drop pos b"]
  have 1: "drop pos b = take (st - pos) (drop pos b) @ drop st b" by simp
  from assms(2,3) have 2: "drop st b = b ! st # drop (Suc st) b"
    by (simp add: Cons_nth_drop_Suc)
  from assms(2) have "drop (l - 1) (drop (Suc st) b) = drop (st + l) b"
    by (simp add: add.commute)
  with append_take_drop_id [of "l - 1" "drop (Suc st) b"]
  have 3: "drop (Suc st) b = take (l - 1) (drop (Suc st) b) @ drop (st + l) b" by simp
  have "count_list (drop (st + l) b) c \<le> count_list (drop (Suc st) b) c"
    by (subst 3) (simp only: count_list_append le_add2)
  also have "\<dots> < count_list (drop st b) c"
    by (subst 2) (simp add: assms(4))
  also have "\<dots> \<le> count_list (drop pos b) c"
    by (subst 1) (simp only: count_list_append le_add2)
  finally show ?thesis using assms(3) by (simp only: drop_QString_replace)
qed

lemma no_percent_before_match:
  assumes "regex_match kTagPattern block pos = Some (st, l)"
    and "QLatin1Char CHR ''%'' \<notin> set (take pos block)"
  shows "QLatin1Char CHR ''%'' \<notin> set (take st block)"
proof
  assume "QLatin1Char CHR ''%'' \<in> set (take st block)"
  then obtain j where j: "j < length (take st block)" and p: "take st block ! j = QLatin1Char CHR ''%''"
    by (auto simp: in_set_conv_nth)
  from j have js: "j < st" and jl: "j < length block" by simp_all
  from p js have bj: "block ! j = QLatin1Char CHR ''%''" by simp
  show False
  proof (cases "j < pos")
    case True
    with bj jl have "take pos block ! j = QLatin1Char CHR ''%''" "j < length (take pos block)"
      by simp_all
    with assms(2) show False by (metis nth_mem)
  next
    case False
    then have "pos \<le> j" by simp
    from regex_match_leftmost [OF assms(1) this js] bj jl show False
      by (simp add: kTagPattern_drop)
  qed
qed

lemma no_percent_no_match:
  assumes "regex_match kTagPattern block pos = None"
    and "QLatin1Char CHR ''%'' \<notin> set (take pos block)"
  shows "QLatin1Char CHR ''%'' \<notin> set block"
proof
  assume "QLatin1Char CHR ''%'' \<in> set block"
  then obtain j where j: "j < length block" and p: "block ! j = QLatin1Char CHR ''%''"
    by (auto simp: in_set_conv_nth)
  show False
  proof (cases "j < pos")
    case True
    with p j have "take pos block ! j = QLatin1Char CHR ''%''" "j < length (take pos block)"
      by simp_all
    with assms(2) show False by (metis nth_mem)
  next
    case False
    then have "pos \<le> j" by simp
    from regex_match_None [OF assms(1) this j] p j show False
      by (simp add: kTagPattern_drop)
  qed
qed

lemma tags_loop_no_percent:
  "tags_loop env fmt song block pos have_tagdata empty1 = Some (b', h', e') \<Longrightarrow>
   QLatin1Char CHR ''%'' \<notin> set (take pos block) \<Longrightarrow>
   \<forall>tag v. TagValue env fmt tag song = Some v \<longrightarrow> QLatin1Char CHR ''%'' \<notin> set v \<Longrightarrow>
   QLatin1Char CHR ''%'' \<notin> set b'"
proof (induction env fmt song block pos have_tagdata empty1 arbitrary: b' h' e'
    rule: tags_loop.induct)
  case (1 env fmt song block pos have_tagdata empty1)
  show ?case
  proof (cases "regex_match kTagPattern block pos")
    case None
    with "1.prems"(1) have "b' = block" by (simp add: tags_loop.simps)
    with no_percent_no_match [OF None "1.prems"(2)] show ?thesis by simp
  next
    case (Some x)
    obtain st l where x: "x = (st, l)" by (cases x)
    obtain v where v: "TagValue env fmt (take (l - 1) (drop (st + 1) block)) song = Some v"
      using TagValue_total by blast
    from Some x have m: "regex_match kTagPattern block pos = Some (st, l)" by simp
    from "1.prems"(1) have r: "tags_loop env fmt song (QString_replace block st l v) (st + length v)
       (if v \<noteq> [] \<and> have_tagdata \<noteq> None \<and>
           take (l - 1) (drop (st + 1) block) \<in> set kUniqueTags
        then Some True else have_tagdata)
       (if v = [] then True else empty1) = Some (b', h', e')"
      by (simp only: tags_loop_step [OF m v])
    note b = tag_match_bounds [OF m]
    from b have "take (st + length v) (QString_replace block st l v) = take st block @ v"
      by (simp add: QString_replace_def)
    moreover from "1.prems"(3) v have "QLatin1Char CHR ''%'' \<notin> set v" by blast
    ultimately have "QLatin1Char CHR ''%'' \<notin> set (take (st + length v) (QString_replace block st l v))"
      using no_percent_before_match [OF m "1.prems"(2)] by simp
    from "1.IH" [OF Some x [symmetric] v r this "1.prems"(3)] show ?thesis .
  qed
qed

lemma block_match_first:
  assumes "\<forall>c\<in>set pre. c \<noteq> QLatin1Char CHR ''{''" "\<forall>c\<in>set body. not_brace c" "body \<noteq> []"
  shows "regex_match kBlockPattern (pre @ QLatin1Char CHR ''{'' # body @ QLatin1Char CHR ''}'' # post) 0
    = Some (length pre, length body + 2)"
proof (rule regex_match_intro)
  have nb: "\<not> not_brace (QLatin1Char CHR ''}'')" by (simp add: not_brace_def)
  from assms(2) nb have "takeWhile not_brace (body @ QLatin1Char CHR ''}'' # post) = body"
    by (simp add: takeWhile_append2)
  moreover from assms(2) nb have "dropWhile not_brace (body @ QLatin1Char CHR ''}'' # post)
      = QLatin1Char CHR ''}'' # post"
    by (simp add: dropWhile_append2)
  ultimately show "kBlockPattern (drop (length pre)
      (pre @ QLatin1Char CHR ''{'' # body @ QLatin1Char CHR ''}'' # post)) = Some (length body + 2)"
    using assms(3) by (simp add: kBlockPattern_def)
  show "0 \<le> length pre" by simp
  show "length pre < length (pre @ QLatin1Char CHR ''{'' # body @ QLatin1Char CHR ''}'' # post)"
    by simp
  show "\<forall>j. 0 \<le> j \<and> j < length pre \<longrightarrow>
      kBlockPattern (drop j (pre @ QLatin1Char CHR ''{'' # body @ QLatin1Char CHR ''}'' # post)) = None"
  proof (intro allI impI)
    fix j assume "0 \<le> j \<and> j < length pre"
    then have j: "j < length pre" by simp
    then have "drop j (pre @ QLatin1Char CHR ''{'' # body @ QLatin1Char CHR ''}'' # post)
        = pre ! j # drop (Suc j) pre @ QLatin1Char CHR ''{'' # body @ QLatin1Char CHR ''}'' # post"
      by (simp add: Cons_nth_drop_Suc)
    moreover from j assms(1) have "pre ! j \<noteq> QLatin1Char CHR ''{''" by simp
    ultimately show "kBlockPattern (drop j
        (pre @ QLatin1Char CHR ''{'' # body @ QLatin1Char CHR ''}'' # post)) = None"
      by (simp add: kBlockPattern_def)
  qed
qed

text \<open>
  The claim C9 as stated fails for a percent sign of the template that stands right
  before a block: in \<open>%{title}\<close> no letter follows the percent sign, the loop over the
  blocks puts \<open>title\<close> behind it, and the loop over the tags then matches the tag
  \<open>title\<close>; the result is the title of the song, and the flag \<open>empty\<close> is not set.
\<close>

theorem bare_percent_counterexample:
  "bare_percent_at (QLatin1String ''%{title}'') 0 \<and>
   ParseBlock sample_environment (OrganizeFormat_new []) (QLatin1String ''%{title}'') sample_song
     (Some False) = Some (QLatin1String ''T'', Some True, False)"
proof -
  let ?fmt = "OrganizeFormat_new []"
  have t: "TagValue sample_environment ?fmt (QLatin1String ''title'') sample_song
      = Some (QLatin1String ''T'')"
    by (simp add: QL sample_defs TagValue_defs)
  have inner: "ParseBlock sample_environment ?fmt (QLatin1String ''title'') sample_song (Some False)
      = Some (QLatin1String ''title'', Some False, False)"
    by (simp add: ParseBlock.simps blocks_loop.simps tags_loop.simps match_defs QL)
  have blocks: "blocks_loop sample_environment ?fmt sample_song (QLatin1String ''%{title}'') 0
      (Some False) = Some (QLatin1String ''%title'', Some False)"
    by (simp add: blocks_loop.simps match_defs QL inner [unfolded QL, simplified])
  have tags: "tags_loop sample_environment ?fmt sample_song (QLatin1String ''%title'') 0
      (Some False) False = Some (QLatin1String ''T'', Some True, False)"
    by (simp add: tags_loop.simps match_defs QL kUniqueTags_def t [unfolded QL, simplified])
  have "ParseBlock sample_environment ?fmt (QLatin1String ''%{title}'') sample_song (Some False)
      = Some (QLatin1String ''T'', Some True, False)"
    by (simp add: ParseBlock.simps [of _ _ "QLatin1String ''%{title}''"] blocks tags)
  moreover have "bare_percent_at (QLatin1String ''%{title}'') 0"
    by (simp add: bare_percent_at_def is_letter_def QL)
  ultimately show ?thesis by simp
qed

text \<open>
  C9 (as amended): the pattern of a tag accepts the empty name. In the text that the
  loop over the tags scans, a percent sign that no letter follows is matched as a tag
  of length one, the empty name resolves to the empty string, the percent sign is
  replaced by nothing and the flag \<open>empty\<close> of the call is set; the call then returns
  with the flag set whatever follows. A block whose text holds such a percent sign is
  replaced by nothing in the loop over the blocks, as is the first block of a
  template when its text holds one. When no value of the song has a percent sign, the
  text that the loop over the tags returns has none.
\<close>

theorem bare_percent_placeholder:
  "TagValue env fmt [] song = Some [] \<and>
   (bare_percent_at block i \<longrightarrow> kTagPattern (drop i block) = Some 1) \<and>
   (bare_percent_at block i \<and> pos \<le> i \<and>
    (\<forall>j. pos \<le> j \<and> j < i \<longrightarrow> block ! j \<noteq> QLatin1Char CHR ''%'') \<longrightarrow>
      tags_loop env fmt song block pos have_tagdata empty1 =
      tags_loop env fmt song (take i block @ drop (Suc i) block) i have_tagdata True) \<and>
   (bare_percent_at block i \<and> pos \<le> i \<longrightarrow>
      (\<exists>b' h'. tags_loop env fmt song block pos have_tagdata empty1 = Some (b', h', True))) \<and>
   (regex_match kBlockPattern block pos = Some (st, l) \<and>
    bare_percent_at (take (l - 2) (drop (st + 1) block)) i \<longrightarrow>
      (\<exists>h'. blocks_loop env fmt song block pos have_tagdata =
            blocks_loop env fmt song (take st block @ drop (st + l) block) st h')) \<and>
   ((\<forall>c\<in>set pre. c \<noteq> QLatin1Char CHR ''{'') \<and> (\<forall>c\<in>set body. not_brace c) \<and>
    bare_percent_at body i \<longrightarrow>
      (\<exists>h'. blocks_loop env fmt song
              (pre @ QLatin1Char CHR ''{'' # body @ QLatin1Char CHR ''}'' # post) 0 have_tagdata =
            blocks_loop env fmt song (pre @ post) (length pre) h')) \<and>
   ((\<forall>tag v. TagValue env fmt tag song = Some v \<longrightarrow> QLatin1Char CHR ''%'' \<notin> set v) \<and>
    tags_loop env fmt song block 0 have_tagdata empty1 = Some (b', h', e') \<longrightarrow>
      QLatin1Char CHR ''%'' \<notin> set b')"
proof (intro conjI impI)
  show "TagValue env fmt [] song = Some []" by (rule TagValue_empty_name)
  show "kTagPattern (drop i block) = Some 1" if "bare_percent_at block i"
    using that by (rule bare_percent_match)
  have flag: "\<exists>b' h'. tags_loop env fmt song s p h e = Some (b', h', True)"
    if "bare_percent_at s k" "p \<le> k" for s p k h e
  proof -
    from tags_loop_total obtain b' h' e' where r: "tags_loop env fmt song s p h e = Some (b', h', e')"
      by (metis prod_cases3)
    from tags_loop_bare_percent [OF r that] r show ?thesis by simp
  qed
  show "\<exists>b' h'. tags_loop env fmt song block pos have_tagdata empty1 = Some (b', h', True)"
    if "bare_percent_at block i \<and> pos \<le> i"
    using that flag by blast
  show "tags_loop env fmt song block pos have_tagdata empty1 =
      tags_loop env fmt song (take i block @ drop (Suc i) block) i have_tagdata True"
    if h: "bare_percent_at block i \<and> pos \<le> i \<and>
      (\<forall>j. pos \<le> j \<and> j < i \<longrightarrow> block ! j \<noteq> QLatin1Char CHR ''%'')"
  proof -
    from h have bare: "bare_percent_at block i" and le: "pos \<le> i" by simp_all
    from bare have i: "i < length block" by (simp add: bare_percent_at_def)
    have "\<forall>j. pos \<le> j \<and> j < i \<longrightarrow> kTagPattern (drop j block) = None"
      using h i by (simp add: kTagPattern_drop)
    from regex_match_intro [OF bare_percent_match [OF bare] le i this]
    have m: "regex_match kTagPattern block pos = Some (i, 1)" .
    have v: "TagValue env fmt (take (1 - 1) (drop (i + 1) block)) song = Some []"
      by (simp add: TagValue_empty_name)
    show ?thesis by (simp add: tags_loop_step [OF m v] QString_replace_def)
  qed
  show "\<exists>h'. blocks_loop env fmt song block pos have_tagdata =
            blocks_loop env fmt song (take st block @ drop (st + l) block) st h'"
    if h: "regex_match kBlockPattern block pos = Some (st, l) \<and>
      bare_percent_at (take (l - 2) (drop (st + 1) block)) i"
  proof -
    from h have m: "regex_match kBlockPattern block pos = Some (st, l)"
      and bare: "bare_percent_at (take (l - 2) (drop (st + 1) block)) i" by simp_all
    from flag [OF bare, of 0 have_tagdata False] obtain b' h'
      where "tags_loop env fmt song (take (l - 2) (drop (st + 1) block)) 0 have_tagdata False
        = Some (b', h', True)" by auto
    then have p: "ParseBlock env fmt (take (l - 2) (drop (st + 1) block)) song have_tagdata
        = Some (b', h', True)"
      by (simp only: ParseBlock_no_brace [OF captured_no_brace [OF m]])
    show ?thesis by (simp add: blocks_loop_step [OF m p] QString_replace_def) blast
  qed
  show "\<exists>h'. blocks_loop env fmt song
              (pre @ QLatin1Char CHR ''{'' # body @ QLatin1Char CHR ''}'' # post) 0 have_tagdata =
            blocks_loop env fmt song (pre @ post) (length pre) h'"
    if h: "(\<forall>c\<in>set pre. c \<noteq> QLatin1Char CHR ''{'') \<and> (\<forall>c\<in>set body. not_brace c) \<and>
      bare_percent_at body i"
  proof -
    from h have bare: "bare_percent_at body i" and ne: "body \<noteq> []"
      by (auto simp: bare_percent_at_def)
    from h ne have m: "regex_match kBlockPattern
        (pre @ QLatin1Char CHR ''{'' # body @ QLatin1Char CHR ''}'' # post) 0
        = Some (length pre, length body + 2)"
      by (intro block_match_first) simp_all
    from flag [OF bare, of 0 have_tagdata False] obtain b1 h1
      where "tags_loop env fmt song body 0 have_tagdata False = Some (b1, h1, True)" by auto
    with h have "ParseBlock env fmt body song have_tagdata = Some (b1, h1, True)"
      by (simp add: ParseBlock_no_brace)
    then have p: "ParseBlock env fmt (take (length body + 2 - 2) (drop (length pre + 1)
        (pre @ QLatin1Char CHR ''{'' # body @ QLatin1Char CHR ''}'' # post))) song have_tagdata
        = Some (b1, h1, True)" by simp
    show ?thesis by (simp add: blocks_loop_step [OF m p] QString_replace_def) blast
  qed
  show "QLatin1Char CHR ''%'' \<notin> set b'"
    if h: "(\<forall>tag v. TagValue env fmt tag song = Some v \<longrightarrow> QLatin1Char CHR ''%'' \<notin> set v) \<and>
      tags_loop env fmt song block 0 have_tagdata empty1 = Some (b', h', e')"
  proof -
    from h have r: "tags_loop env fmt song block 0 have_tagdata empty1 = Some (b', h', e')"
      and v: "\<forall>tag v. TagValue env fmt tag song = Some v \<longrightarrow> QLatin1Char CHR ''%'' \<notin> set v"
      by simp_all
    have "QLatin1Char CHR ''%'' \<notin> set (take 0 block)" by simp
    from tags_loop_no_percent [OF r this v] show ?thesis .
  qed
qed

theorem bare_percent_placeholder_witness:
  "tags_loop sample_environment (OrganizeFormat_new []) sample_song (QLatin1String ''a%'') 0
     (Some False) False = Some (QLatin1String ''a'', Some False, True)"
proof -
  have "bare_percent_at (QLatin1String ''a%'') 1 \<and> (0::nat) \<le> 1 \<and>
    (\<forall>j. 0 \<le> j \<and> j < 1 \<longrightarrow> QLatin1String ''a%'' ! j \<noteq> QLatin1Char CHR ''%'')"
    by (simp add: bare_percent_at_def QLatin1String_def QLatin1Char_def)
  with bare_percent_placeholder [of sample_environment "OrganizeFormat_new []" sample_song
      "QLatin1String ''a%''" 1 0 "Some False" False, THEN conjunct2, THEN conjunct2, THEN conjunct1]
  have "tags_loop sample_environment (OrganizeFormat_new []) sample_song (QLatin1String ''a%'') 0
     (Some False) False = tags_loop sample_environment (OrganizeFormat_new []) sample_song
       (take 1 (QLatin1String ''a%'') @ drop (Suc 1) (QLatin1String ''a%'')) 1 (Some False) True"
    by (rule mp)
  also have "\<dots> = Some (QLatin1String ''a'', Some False, True)"
    by (simp add: tags_loop.simps regex_match_def QLatin1String_def QLatin1Char_def)
  finally show ?thesis .
qed

text \<open>
  C8: \<open>ParseBlock\<close> and its two loops terminate on every input, and \<open>ParseBlock\<close>
  returns a value. Each round of the loop over the blocks leaves fewer opening braces
  and less text after the position, and the block it parses recursively is shorter
  than that text and has no brace; each round of the loop over the tags leaves fewer
  percent signs and less text after the position.
\<close>

theorem ParseBlock_terminates:
  "ParseBlock_blocks_loop_dom (Inl (env, fmt, block, song, have_tagdata)) \<and>
   ParseBlock_blocks_loop_dom (Inr (env, fmt, song, block, pos, have_tagdata)) \<and>
   tags_loop_dom (env, fmt, song, block, pos, have_tagdata, empty1) \<and>
   (\<exists>r. ParseBlock env fmt block song have_tagdata = Some r) \<and>
   (regex_match kBlockPattern block pos = Some (st, l) \<longrightarrow>
      count_list (drop (st + length v) (QString_replace block st l v)) (QLatin1Char CHR ''{'')
        < count_list (drop pos block) (QLatin1Char CHR ''{'') \<and>
      length (QString_replace block st l v) - (st + length v) < length block - pos \<and>
      length (take (l - 2) (drop (st + 1) block)) < length block - pos \<and>
      (\<forall>c\<in>set (take (l - 2) (drop (st + 1) block)). not_brace c)) \<and>
   (regex_match kTagPattern block pos = Some (st, l) \<longrightarrow>
      count_list (drop (st + length v) (QString_replace block st l v)) (QLatin1Char CHR ''%'')
        < count_list (drop pos block) (QLatin1Char CHR ''%'') \<and>
      length (QString_replace block st l v) - (st + length v) < length block - pos)"
proof (intro conjI impI)
  from ParseBlock_dom_all
  show "ParseBlock_blocks_loop_dom (Inl (env, fmt, block, song, have_tagdata))"
    and "ParseBlock_blocks_loop_dom (Inr (env, fmt, song, block, pos, have_tagdata))"
    by blast+
  from tags_loop_dom_all show "tags_loop_dom (env, fmt, song, block, pos, have_tagdata, empty1)"
    by blast
  show "\<exists>r. ParseBlock env fmt block song have_tagdata = Some r" by (rule ParseBlock_total)
next
  assume m: "regex_match kBlockPattern block pos = Some (st, l)"
  note b = block_match_bounds [OF m]
  from b show "count_list (drop (st + length v) (QString_replace block st l v)) (QLatin1Char CHR ''{'')
        < count_list (drop pos block) (QLatin1Char CHR ''{'')"
    by (intro markers_decrease kBlockPattern_drop(1) [OF m]) simp_all
  from b show "length (QString_replace block st l v) - (st + length v) < length block - pos"
    by (simp add: length_QString_replace)
  from b show "length (take (l - 2) (drop (st + 1) block)) < length block - pos" by simp
  show "\<forall>c\<in>set (take (l - 2) (drop (st + 1) block)). not_brace c"
    by (rule captured_no_brace [OF m])
next
  assume m: "regex_match kTagPattern block pos = Some (st, l)"
  note b = tag_match_bounds [OF m]
  from regex_match_Some(2,3) [OF m] have "block ! st = QLatin1Char CHR ''%''"
    by (simp add: kTagPattern_drop split: if_splits)
  with b show "count_list (drop (st + length v) (QString_replace block st l v)) (QLatin1Char CHR ''%'')
        < count_list (drop pos block) (QLatin1Char CHR ''%'')"
    by (intro markers_decrease) simp_all
  from b show "length (QString_replace block st l v) - (st + length v) < length block - pos"
    by (simp add: length_QString_replace)
qed

theorem ParseBlock_terminates_witness:
  "regex_match kBlockPattern (QLatin1String ''{%year}x'') 0 = Some (0, 7) \<and>
   count_list (drop (0 + length (QLatin1String ''2024''))
       (QString_replace (QLatin1String ''{%year}x'') 0 7 (QLatin1String ''2024'')))
     (QLatin1Char CHR ''{'') < count_list (drop 0 (QLatin1String ''{%year}x'')) (QLatin1Char CHR ''{'') \<and>
   regex_match kTagPattern (QLatin1String ''a%year'') 0 = Some (1, 5) \<and>
   count_list (drop (1 + length (QLatin1String ''2024''))
       (QString_replace (QLatin1String ''a%year'') 1 5 (QLatin1String ''2024'')))
     (QLatin1Char CHR ''%'') < count_list (drop 0 (QLatin1String ''a%year'')) (QLatin1Char CHR ''%'')"
proof -
  have 1: "regex_match kBlockPattern (QLatin1String ''{%year}x'') 0 = Some (0, 7)"
    by (simp add: regex_match_def kBlockPattern_def not_brace_def QLatin1String_def QLatin1Char_def)
  have 2: "regex_match kTagPattern (QLatin1String ''a%year'') 0 = Some (1, 5)"
    by (simp add: regex_match_def kTagPattern_def is_letter_def QLatin1String_def QLatin1Char_def)
  from 1 2 ParseBlock_terminates [of sample_environment "OrganizeFormat_new []"
      "QLatin1String ''{%year}x''" sample_song None 0 False 0 7 "QLatin1String ''2024''"]
    ParseBlock_terminates [of sample_environment "OrganizeFormat_new []"
      "QLatin1String ''a%year''" sample_song None 0 False 1 5 "QLatin1String ''2024''"]
  show ?thesis by blast
qed

section \<open>Nested blocks\<close>

lemma TagValue_album_X:
  assumes "album song = QLatin1String ''X''" "\<not> kInvalidDirCharactersRegex env (QLatin1Char CHR ''X'')"
  shows "TagValue env fmt (QLatin1String ''album'') song = Some (QLatin1String ''X'')"
  using assms by (cases "remove_problematic fmt")
    (simp_all add: TagValue_def field_value_def QL trimmed_def isSpace_def Let_def)

lemma TagValue_year_0:
  assumes "year song = 0"
  shows "TagValue env fmt (QLatin1String ''year'') song = Some []"
  using assms by (simp add: TagValue_def field_value_def QL trimmed_def QString_number_def
      digits.simps Let_def)

lemma ParseBlock_nested_value:
  assumes "album song = QLatin1String ''X''" and "year song = 0"
    and "\<not> kInvalidDirCharactersRegex env (QLatin1Char CHR ''X'')"
  shows "ParseBlock env fmt (QLatin1String ''{%album ({%year})}'') song have_tagdata =
           Some (QLatin1String ''{X ()}'', have_tagdata, False)"
proof -
  note tv = TagValue_album_X [OF assms(1,3), of fmt, unfolded QL, simplified]
    TagValue_year_0 [OF assms(2), of env fmt, unfolded QL, simplified]
  have inner: "ParseBlock env fmt (QLatin1String ''%year'') song have_tagdata = Some ([], have_tagdata, True)"
    by (simp add: ParseBlock.simps blocks_loop.simps tags_loop.simps match_defs QL tv kUniqueTags_def)
  have blocks: "blocks_loop env fmt song (QLatin1String ''{%album ({%year})}'') 0 have_tagdata =
      Some (QLatin1String ''{%album ()}'', have_tagdata)"
    by (simp add: blocks_loop.simps match_defs QL inner [unfolded QL, simplified])
  have tags: "tags_loop env fmt song (QLatin1String ''{%album ()}'') 0 have_tagdata False =
      Some (QLatin1String ''{X ()}'', have_tagdata, False)"
    by (simp add: tags_loop.simps match_defs QL tv kUniqueTags_def)
  show ?thesis by (simp add: ParseBlock.simps [of _ _ "QLatin1String ''{%album ({%year})}''"] blocks tags)
qed

text \<open>
  C1 (as amended): for the template \<open>{%album ({%year})}\<close>, a song whose album is \<open>X\<close>
  and whose year is 0, the inner block is replaced by nothing, and the loop over the
  blocks goes on from the position of that block, behind the opening brace of the
  outer one, which it never matches: the result is \<open>{X ()}\<close>, with both braces, and
  the flag \<open>empty\<close> is not set.
\<close>

theorem ParseBlock_nested:
  assumes "album song = QLatin1String ''X''" and "year song = 0"
    and "\<not> kInvalidDirCharactersRegex env (QLatin1Char CHR ''X'')"
  shows "ParseBlock env fmt (QLatin1String ''{%album ({%year})}'') song have_tagdata =
           Some (QLatin1String ''{X ()}'', have_tagdata, False)"
  using assms by (rule ParseBlock_nested_value)

theorem ParseBlock_nested_witness:
  "ParseBlock sample_environment (OrganizeFormat_new []) (QLatin1String ''{%album ({%year})}'')
     sample_song (Some False) = Some (QLatin1String ''{X ()}'', Some False, False)"
proof -
  have "album sample_song = QLatin1String ''X''" "year sample_song = 0"
    "\<not> kInvalidDirCharactersRegex sample_environment (QLatin1Char CHR ''X'')"
    by (simp_all add: sample_song_def sample_environment_def QL)
  then show ?thesis by (rule ParseBlock_nested)
qed

text \<open>The claim C1 as stated fails: the result is not \<open>X ()\<close>.\<close>

theorem ParseBlock_nested_counterexample:
  "map_option fst (ParseBlock sample_environment (OrganizeFormat_new [])
      (QLatin1String ''{%album ({%year})}'') sample_song (Some False))
     \<noteq> Some (QLatin1String ''X ()'') \<and>
   map_option fst (ParseBlock sample_environment (OrganizeFormat_new [])
      (QLatin1String ''{%album ({%year})}'') sample_song (Some False))
     = Some (QLatin1String ''{X ()}'') \<and>
   album sample_song = QLatin1String ''X'' \<and> year sample_song = 0"
proof -
  have "album sample_song = QLatin1String ''X''" "year sample_song = 0"
    "\<not> kInvalidDirCharactersRegex sample_environment (QLatin1Char CHR ''X'')"
    by (simp_all add: sample_song_def sample_environment_def QL)
  from ParseBlock_nested_value [OF this, of "OrganizeFormat_new []" "Some False"] this(1,2)
  show ?thesis by (simp add: QL)
qed

section \<open>Rendering paths\<close>

lemma sample_artist: "TagValue sample_environment (OrganizeFormat_new (QLatin1String ''%artist/%title'')) (QLatin1String ''artist'') sample_song = Some (QLatin1String ''...A'')"
  by (simp add: QL sample_defs TagValue_defs)

lemma sample_title: "TagValue sample_environment (OrganizeFormat_new (QLatin1String ''%artist/%title'')) (QLatin1String ''title'') sample_song = Some (QLatin1String ''T'')"
  by (simp add: QL sample_defs TagValue_defs)

lemma sample_tags: "tags_loop sample_environment (OrganizeFormat_new (QLatin1String ''%artist/%title'')) sample_song
     (QLatin1String ''%artist/%title'') 0 (Some False) False
   = Some (QLatin1String ''...A/T'', Some True, False)"
  by (simp add: tags_loop.simps match_defs QL kUniqueTags_def sample_artist [unfolded QL, simplified] sample_title [unfolded QL, simplified])

lemma sample_ParseBlock:
  "ParseBlock sample_environment (OrganizeFormat_new (QLatin1String ''%artist/%title''))
     (QLatin1String ''%artist/%title'') sample_song (Some False)
   = Some (QLatin1String ''...A/T'', Some True, False)"
proof -
  have "blocks_loop sample_environment (OrganizeFormat_new (QLatin1String ''%artist/%title'')) sample_song
     (QLatin1String ''%artist/%title'') 0 (Some False) = Some (QLatin1String ''%artist/%title'', Some False)"
    by (simp add: blocks_loop.simps match_defs QL)
  then show ?thesis
    by (simp add: ParseBlock.simps [of _ _ "QLatin1String ''%artist/%title''"] sample_tags)
qed

lemma sample_sanitize:
  "sanitize sample_environment (OrganizeFormat_new (QLatin1String ''%artist/%title'')) sample_song []
     (QLatin1String ''...A/T'') = QLatin1String ''..A/T.mp3''"
  by (simp add: sanitize_defs path_defs QL sample_defs trimmed_def isSpace_def regex_space_def)

text \<open>
  C2: the code at a failing input. For the template \<open>%artist/%title\<close> and the artist
  \<open>...A\<close> the returned path is \<open>..A/T.mp3\<close>: its first segment has lost one dot and
  still begins with the invalid prefix character.
\<close>

theorem GetFilenameForSong_leading_dots:
  "GetFilenameForSong sample_environment (OrganizeFormat_new (QLatin1String ''%artist/%title''))
     sample_song [] = Some (Result (QLatin1String ''..A/T.mp3'') True) \<and>
   split (QLatin1Char CHR ''/'') (QLatin1String ''..A/T.mp3'')
     = [QLatin1String ''..A'', QLatin1String ''T.mp3''] \<and>
   hd (QLatin1String ''..A'') \<in> QLatin1Char ` set (kInvalidPrefixCharacters sample_environment)"
proof -
  have f: "format (OrganizeFormat_new (QLatin1String ''%artist/%title'')) = QLatin1String ''%artist/%title''"
    by (simp add: OrganizeFormat_new_def)
  have fb: "fallback_filepath sample_song (QLatin1String ''...A/T'') = QLatin1String ''...A/T''"
    by (simp add: path_defs QL)
  have rj: "\<not> rejected (QLatin1String ''...A/T'')"
    by (simp add: path_defs QL)
  have "GetFilenameForSong sample_environment (OrganizeFormat_new (QLatin1String ''%artist/%title''))
     sample_song [] = Some (Result (QLatin1String ''..A/T.mp3'') True)"
    by (simp add: GetFilenameForSong_def f sample_ParseBlock fb rj sample_sanitize)
  then show ?thesis by (simp add: QL sample_environment_def)
qed

section \<open>Rejected paths\<close>

lemma split_nonempty: "split sep s \<noteq> []"
  by (induction s) (auto split: list.splits)

lemma length_split: "length (split sep s) = Suc (count_list s sep)"
proof (induction s)
  case Nil
  then show ?case by simp
next
  case (Cons c cs)
  with split_nonempty [of sep cs] show ?case
    by (cases "split sep cs") auto
qed

lemma count_list_pos: "0 < count_list s c \<longleftrightarrow> c \<in> set s"
  by (induction s) auto

lemma QString_section_directory:
  assumes "sep \<in> set p"
  shows "QString_section sep 0 (- 2) p = join sep (butlast (split sep p))"
proof -
  from assms have "0 < count_list p sep" by (simp add: count_list_pos)
  then have n: "2 \<le> length (split sep p)" by (simp add: length_split)
  then have "nat (- 2 + int (length (split sep p)) - max 0 0 + 1) = length (split sep p) - 1"
    by simp
  with n show ?thesis
    by (simp add: QString_section_def Let_def butlast_conv_take)
qed

text \<open>
  \<open>GetFilenameForSong\<close> always returns. It returns the rejected result exactly
  when the file path after \<open>ParseBlock\<close> and the fallback to the base filename is
  empty, or has a slash and an empty \<open>section(0, -2)\<close>, which for a path with a slash
  is what comes before its last segment; in every other case it returns the sanitized
  path with the uniqueness flag.
\<close>

lemma GetFilenameForSong_sentinel:
  "\<exists>parsed unique_filename empty1.
     ParseBlock env fmt (format fmt) song (Some False) = Some (parsed, unique_filename, empty1) \<and>
     (GetFilenameForSong env fmt song extension = Some Rejected \<longleftrightarrow>
        fallback_filepath song parsed = [] \<or>
        (QLatin1Char CHR ''/'' \<in> set (fallback_filepath song parsed) \<and>
         QString_section (QLatin1Char CHR ''/'') 0 (- 2) (fallback_filepath song parsed) = [])) \<and>
     (GetFilenameForSong env fmt song extension \<noteq> Some Rejected \<longrightarrow>
        GetFilenameForSong env fmt song extension =
          Some (Result (sanitize env fmt song extension (fallback_filepath song parsed))
                  (unique_filename = Some True))) \<and>
     (QLatin1Char CHR ''/'' \<in> set (fallback_filepath song parsed) \<longrightarrow>
        QString_section (QLatin1Char CHR ''/'') 0 (- 2) (fallback_filepath song parsed) =
          join (QLatin1Char CHR ''/'')
            (butlast (split (QLatin1Char CHR ''/'') (fallback_filepath song parsed))))"
proof -
  from ParseBlock_total obtain parsed unique_filename empty1
    where p: "ParseBlock env fmt (format fmt) song (Some False) = Some (parsed, unique_filename, empty1)"
    by (metis prod_cases3)
  show ?thesis
  proof (intro exI conjI impI)
    show "ParseBlock env fmt (format fmt) song (Some False) = Some (parsed, unique_filename, empty1)"
      by (rule p)
    show "GetFilenameForSong env fmt song extension = Some Rejected \<longleftrightarrow>
        fallback_filepath song parsed = [] \<or>
        (QLatin1Char CHR ''/'' \<in> set (fallback_filepath song parsed) \<and>
         QString_section (QLatin1Char CHR ''/'') 0 (- 2) (fallback_filepath song parsed) = [])"
      by (simp add: GetFilenameForSong_def p rejected_def Let_def)
    show "GetFilenameForSong env fmt song extension =
          Some (Result (sanitize env fmt song extension (fallback_filepath song parsed))
                  (unique_filename = Some True))"
      if "GetFilenameForSong env fmt song extension \<noteq> Some Rejected"
      using that by (simp add: GetFilenameForSong_def p Let_def split: if_splits)
    show "QString_section (QLatin1Char CHR ''/'') 0 (- 2) (fallback_filepath song parsed) =
          join (QLatin1Char CHR ''/'')
            (butlast (split (QLatin1Char CHR ''/'') (fallback_filepath song parsed)))"
      if "QLatin1Char CHR ''/'' \<in> set (fallback_filepath song parsed)"
      using that by (rule QString_section_directory)
  qed
qed

lemma blank_tags:
  "tags_loop sample_environment (OrganizeFormat_new (QLatin1String ''%composer %performer'')) song
     (QLatin1String ''%composer %performer'') 0 (Some False) False
     = Some (QLatin1String '' '', Some False, True)"
  if "composer song = []" "performer song = []"
proof -
  have c: "TagValue sample_environment (OrganizeFormat_new (QLatin1String ''%composer %performer''))
      (QLatin1String ''composer'') song = Some []"
    using that by (simp add: QL sample_defs TagValue_defs)
  have p: "TagValue sample_environment (OrganizeFormat_new (QLatin1String ''%composer %performer''))
      (QLatin1String ''performer'') song = Some []"
    using that by (simp add: QL sample_defs TagValue_defs)
  show ?thesis
    by (simp add: tags_loop.simps match_defs QL kUniqueTags_def c [unfolded QL, simplified]
        p [unfolded QL, simplified])
qed

lemma blank_ParseBlock:
  assumes "composer song = []" "performer song = []"
  shows "ParseBlock sample_environment (OrganizeFormat_new (QLatin1String ''%composer %performer''))
     (format (OrganizeFormat_new (QLatin1String ''%composer %performer''))) song (Some False)
     = Some (QLatin1String '' '', Some False, True)"
proof -
  have "blocks_loop sample_environment (OrganizeFormat_new (QLatin1String ''%composer %performer''))
      song (QLatin1String ''%composer %performer'') 0 (Some False)
      = Some (QLatin1String ''%composer %performer'', Some False)"
    by (simp add: blocks_loop.simps match_defs QL)
  with blank_tags [OF assms] show ?thesis
    by (simp add: ParseBlock.simps [of _ _ "QLatin1String ''%composer %performer''"]
        OrganizeFormat_new_def)
qed

text \<open>
  C4: the code at a failing input. The test at line 115 sees the file path before
  line 149 simplifies its whitespace. For the template \<open>%composer %performer\<close> and a
  song that has neither tag, the file path at line 115 is one space: it is not empty
  and its complete base name is not empty, so lines 100 to 112 do not replace it by
  the base filename of the song, and line 115 does not reject it. The returned path
  is empty for a source file without a suffix, and it is \<open>.mp3\<close>, an extension
  alone, for the source file \<open>/m/s.mp3\<close>: both are successful results.
\<close>

theorem GetFilenameForSong_blank:
  "GetFilenameForSong sample_environment (OrganizeFormat_new (QLatin1String ''%composer %performer''))
     (sample_song\<lparr>url_toLocalFile := QLatin1String ''/m/s'', basefilename := QLatin1String ''s''\<rparr>) []
     = Some (Result [] False) \<and>
   GetFilenameForSong sample_environment (OrganizeFormat_new (QLatin1String ''%composer %performer''))
     sample_song [] = Some (Result (QLatin1String ''.mp3'') False)"
proof
  have fb: "fallback_filepath song (QLatin1String '' '') = QLatin1String '' ''" for song
    by (simp add: path_defs QL)
  have nr: "\<not> rejected (QLatin1String '' '')"
    by (simp add: path_defs QL)
  have e1: "composer (sample_song\<lparr>url_toLocalFile := QLatin1String ''/m/s'', basefilename := QLatin1String ''s''\<rparr>) = []"
    "performer (sample_song\<lparr>url_toLocalFile := QLatin1String ''/m/s'', basefilename := QLatin1String ''s''\<rparr>) = []"
    by (simp_all add: sample_song_def)
  have e2: "composer sample_song = []" "performer sample_song = []"
    by (simp_all add: sample_song_def)
  have s1: "sanitize sample_environment (OrganizeFormat_new (QLatin1String ''%composer %performer''))
      (sample_song\<lparr>url_toLocalFile := QLatin1String ''/m/s'', basefilename := QLatin1String ''s''\<rparr>) []
      (QLatin1String '' '') = []"
    by (simp add: sanitize_defs path_defs sample_defs QL isSpace_def trimmed_def)
  have s2: "sanitize sample_environment (OrganizeFormat_new (QLatin1String ''%composer %performer''))
      sample_song [] (QLatin1String '' '') = QLatin1String ''.mp3''"
    by (simp add: sanitize_defs path_defs sample_defs QL isSpace_def trimmed_def)
  show "GetFilenameForSong sample_environment (OrganizeFormat_new (QLatin1String ''%composer %performer''))
     (sample_song\<lparr>url_toLocalFile := QLatin1String ''/m/s'', basefilename := QLatin1String ''s''\<rparr>) []
     = Some (Result [] False)"
    by (simp add: GetFilenameForSong_def blank_ParseBlock [OF e1] fb nr s1)
  show "GetFilenameForSong sample_environment (OrganizeFormat_new (QLatin1String ''%composer %performer''))
     sample_song [] = Some (Result (QLatin1String ''.mp3'') False)"
    by (simp add: GetFilenameForSong_def blank_ParseBlock [OF e2] fb nr s2)
qed

section \<open>Whitespace in the returned path\<close>

lemma fields_chars: "w \<in> set (space_fields s) \<Longrightarrow> c \<in> set w \<Longrightarrow> c \<in> set s \<and> \<not> isSpace c"
proof (induction s arbitrary: w)
  case Nil
  then show ?case by simp
next
  case (Cons a s)
  show ?case
  proof (cases "isSpace a")
    case True
    with Cons.prems have "w \<in> set (space_fields s)" by auto
    from Cons.IH [OF this Cons.prems(2)] show ?thesis by simp
  next
    case False
    show ?thesis
    proof (cases "space_fields s")
      case Nil
      with False Cons.prems show ?thesis by simp
    next
      case (Cons v vs)
      with False Cons.prems(1) have "w = a # v \<or> w \<in> set vs" by simp
      then show ?thesis
      proof
        assume "w = a # v"
        with Cons.prems(2) have "c = a \<or> c \<in> set v" by simp
        with False Cons.IH [of v] Cons show ?thesis by auto
      next
        assume "w \<in> set vs"
        with Cons Cons.IH [of w] Cons.prems(2) show ?thesis by simp
      qed
    qed
  qed
qed

lemma split_chars: "w \<in> set (split sep s) \<Longrightarrow> c \<in> set w \<Longrightarrow> c \<in> set s \<and> c \<noteq> sep"
proof (induction s arbitrary: w)
  case Nil
  then show ?case by simp
next
  case (Cons a s)
  show ?case
  proof (cases "a = sep")
    case True
    with Cons.prems have "w \<in> set (split sep s)" by auto
    from Cons.IH [OF this Cons.prems(2)] show ?thesis by simp
  next
    case False
    show ?thesis
    proof (cases "split sep s")
      case Nil
      with False Cons.prems show ?thesis by simp
    next
      case (Cons v vs)
      with False Cons.prems(1) have "w = a # v \<or> w \<in> set vs" by simp
      then show ?thesis
      proof
        assume "w = a # v"
        with Cons.prems(2) have "c = a \<or> c \<in> set v" by simp
        with False Cons.IH [of v] Cons show ?thesis by auto
      next
        assume "w \<in> set vs"
        with Cons Cons.IH [of w] Cons.prems(2) show ?thesis by simp
      qed
    qed
  qed
qed

lemma join_chars: "c \<in> set (join sep ws) \<Longrightarrow> c = sep \<or> (\<exists>w\<in>set ws. c \<in> set w)"
  by (induction sep ws rule: join.induct) auto

lemma simplified_chars:
  "c \<in> set (simplified s) \<Longrightarrow> c = 0x20 \<or> (c \<in> set s \<and> \<not> isSpace c)"
  unfolding simplified_def by (auto dest!: join_chars dest: fields_chars)

lemma remove_characters_spaces:
  "c \<in> set (remove_characters env fmt p) \<Longrightarrow> isSpace c \<Longrightarrow> c = 0x20"
  unfolding remove_characters_def Let_def by (auto dest: simplified_chars)

lemma set_beforeLast: "set (beforeLast sep s) \<subseteq> set s"
proof -
  have "set (tl xs) \<subseteq> set xs" for xs :: qstring by (cases xs) auto
  then have "set (tl (dropWhile (\<lambda>c. c \<noteq> sep) (rev s))) \<subseteq> set (dropWhile (\<lambda>c. c \<noteq> sep) (rev s))" .
  also have "\<dots> \<subseteq> set (rev s)" by (rule subsetI) (rule set_dropWhileD)
  finally show ?thesis by (simp add: beforeLast_def)
qed

lemma set_fileName: "set (fileName s) \<subseteq> set s"
  unfolding fileName_def by (auto dest: set_takeWhileD)

lemma set_completeBaseName: "set (QFileInfo_completeBaseName s) \<subseteq> set s"
  using set_beforeLast [of "QLatin1Char CHR ''.''" "fileName s"] set_fileName [of s]
  by (auto simp: QFileInfo_completeBaseName_def Let_def)

lemma fixup_filepath_chars:
  "c \<in> set (fixup_filepath info) \<Longrightarrow> c = QLatin1Char CHR ''/'' \<or> c \<in> set info"
  using set_beforeLast [of "QLatin1Char CHR ''/''" info] set_completeBaseName [of info]
  by (auto simp: fixup_filepath_def QFileInfo_path_def QLatin1String_def split: if_splits)

lemma set_trimmed: "set (trimmed s) \<subseteq> set s"
  unfolding trimmed_def by (auto dest!: set_dropWhileD)

lemma set_strip_invalid_prefix: "set (strip_invalid_prefix ks part) \<subseteq> set part"
  by (induction ks) (auto dest: in_set_dropD)

lemma fix_parts_chars:
  "c \<in> set (fix_parts env p) \<Longrightarrow> c = QLatin1Char CHR ''/'' \<or> c \<in> set p"
  unfolding fix_parts_def
  using set_trimmed set_strip_invalid_prefix
  by (fastforce dest!: join_chars dest: split_chars)

lemma replace_whitespaces_chars:
  "replace_spaces fmt \<Longrightarrow> c \<in> set (replace_whitespaces fmt p) \<Longrightarrow>
     c = QLatin1Char CHR ''_'' \<or> (c \<in> set p \<and> \<not> regex_space c)"
  by (auto simp: replace_whitespaces_def)

lemma not_space_punct:
  "\<not> isSpace (QLatin1Char CHR ''_'')" "\<not> isSpace (QLatin1Char CHR ''/'')"
  "\<not> isSpace (QLatin1Char CHR ''.'')" "regex_space 0x20"
  by (simp_all add: isSpace_def regex_space_def QLatin1Char_def)

lemma sanitize_filepath_no_space:
  assumes "replace_spaces fmt" "c \<in> set (sanitize_filepath env fmt filepath)"
  shows "\<not> isSpace c"
proof
  assume sp: "isSpace c"
  from replace_whitespaces_chars [OF assms [unfolded sanitize_filepath_def]] sp not_space_punct(1)
  have c: "c \<in> set (fix_parts env (fixup_filepath (remove_characters env fmt filepath)))"
    and r: "\<not> regex_space c" by auto
  from fix_parts_chars [OF c] sp not_space_punct(2)
  have "c \<in> set (fixup_filepath (remove_characters env fmt filepath))" by auto
  from fixup_filepath_chars [OF this] sp not_space_punct(2)
  have "c \<in> set (remove_characters env fmt filepath)" by auto
  from remove_characters_spaces [OF this sp] r not_space_punct(4) show False by simp
qed

lemma spaced_ParseBlock:
  "ParseBlock sample_environment (OrganizeFormat_new (QLatin1String ''%album %title''))
     (format (OrganizeFormat_new (QLatin1String ''%album %title''))) song (Some False)
   = Some (QLatin1String ''X T'', Some True, False)"
  if "album song = QLatin1String ''X''" "title song = QLatin1String ''T''"
proof -
  have a: "TagValue sample_environment (OrganizeFormat_new (QLatin1String ''%album %title''))
      (QLatin1String ''album'') song = Some (QLatin1String ''X'')"
    using that by (simp add: QL sample_defs TagValue_defs)
  have t: "TagValue sample_environment (OrganizeFormat_new (QLatin1String ''%album %title''))
      (QLatin1String ''title'') song = Some (QLatin1String ''T'')"
    using that by (simp add: QL sample_defs TagValue_defs)
  have "blocks_loop sample_environment (OrganizeFormat_new (QLatin1String ''%album %title''))
      song (QLatin1String ''%album %title'') 0 (Some False)
      = Some (QLatin1String ''%album %title'', Some False)"
    by (simp add: blocks_loop.simps match_defs QL)
  moreover have "tags_loop sample_environment (OrganizeFormat_new (QLatin1String ''%album %title''))
      song (QLatin1String ''%album %title'') 0 (Some False) False
      = Some (QLatin1String ''X T'', Some True, False)"
    by (simp add: tags_loop.simps match_defs QL kUniqueTags_def a [unfolded QL, simplified]
        t [unfolded QL, simplified])
  ultimately show ?thesis
    by (simp add: ParseBlock.simps [of _ _ "QLatin1String ''%album %title''"] OrganizeFormat_new_def)
qed

lemma dotted_ParseBlock:
  "ParseBlock sample_environment (OrganizeFormat_new (QLatin1String ''%album %title.%extension''))
     (format (OrganizeFormat_new (QLatin1String ''%album %title.%extension''))) sample_song (Some False)
   = Some (QLatin1String ''X T.mp3'', Some True, False)"
proof -
  let ?fmt = "OrganizeFormat_new (QLatin1String ''%album %title.%extension'')"
  have a: "TagValue sample_environment ?fmt (QLatin1String ''album'') sample_song
      = Some (QLatin1String ''X'')"
    by (simp add: QL sample_defs TagValue_defs)
  have t: "TagValue sample_environment ?fmt (QLatin1String ''title'') sample_song
      = Some (QLatin1String ''T'')"
    by (simp add: QL sample_defs TagValue_defs)
  have e: "TagValue sample_environment ?fmt (QLatin1String ''extension'') sample_song
      = Some (QLatin1String ''mp3'')"
    by (simp add: QL sample_defs TagValue_defs QFileInfo_suffix_def fileName_def)
  have "blocks_loop sample_environment ?fmt sample_song (QLatin1String ''%album %title.%extension'')
      0 (Some False) = Some (QLatin1String ''%album %title.%extension'', Some False)"
    by (simp add: blocks_loop.simps match_defs QL)
  moreover have "tags_loop sample_environment ?fmt sample_song
      (QLatin1String ''%album %title.%extension'') 0 (Some False) False
      = Some (QLatin1String ''X T.mp3'', Some True, False)"
    by (simp add: tags_loop.simps match_defs QL kUniqueTags_def a [unfolded QL, simplified]
        t [unfolded QL, simplified] e [unfolded QL, simplified])
  ultimately show ?thesis
    by (simp add: ParseBlock.simps [of _ _ "QLatin1String ''%album %title.%extension''"]
        OrganizeFormat_new_def)
qed

lemma spaced_candidate:
  "fallback_filepath song (QLatin1String ''X T'') = QLatin1String ''X T''"
  "\<not> rejected (QLatin1String ''X T'')"
  "fallback_filepath song (QLatin1String ''X T.mp3'') = QLatin1String ''X T.mp3''"
  "\<not> rejected (QLatin1String ''X T.mp3'')"
  by (simp_all add: path_defs QL)

lemma spaced_sanitize_filepath:
  "sanitize_filepath sample_environment (OrganizeFormat_new v) (QLatin1String ''X T'')
     = QLatin1String ''X_T''"
  "sanitize_filepath sample_environment (OrganizeFormat_new v) (QLatin1String ''X T.mp3'')
     = QLatin1String ''X_T''"
  "remove_characters sample_environment (OrganizeFormat_new v) (QLatin1String ''X T'')
     = QLatin1String ''X T''"
  "remove_characters sample_environment (OrganizeFormat_new v) (QLatin1String ''X T.mp3'')
     = QLatin1String ''X T.mp3''"
  by (simp_all add: sanitize_defs path_defs QL sample_defs trimmed_def isSpace_def regex_space_def)

lemma sanitize_override:
  "extension \<noteq> [] \<Longrightarrow> sanitize env fmt song extension filepath =
     sanitize_filepath env fmt filepath @ QLatin1Char CHR ''.'' # extension"
  by (simp add: sanitize_def sanitize_extension_def fixup_extension_def QL)

lemma sanitize_source_suffix:
  "QFileInfo_suffix (remove_characters env fmt filepath) = [] \<Longrightarrow>
   sanitize env fmt song [] filepath =
     sanitize_filepath env fmt filepath @
     (if QFileInfo_suffix (url_toLocalFile song) = [] then []
      else QLatin1Char CHR ''.'' # QFileInfo_suffix (url_toLocalFile song))"
  by (simp add: sanitize_def sanitize_extension_def fixup_extension_def QL)

lemma sanitize_path_suffix:
  "QFileInfo_suffix (remove_characters env fmt filepath) \<noteq> [] \<Longrightarrow>
   sanitize env fmt song [] filepath =
     sanitize_filepath env fmt filepath @
     QLatin1Char CHR ''.'' # QFileInfo_suffix (remove_characters env fmt filepath)"
  by (simp add: sanitize_def sanitize_extension_def fixup_extension_def QL)

lemma GetFilenameForSong_success:
  assumes "ParseBlock env fmt (format fmt) song (Some False) = Some (parsed, unique_filename, empty1)"
    and "\<not> rejected (fallback_filepath song parsed)"
  shows "GetFilenameForSong env fmt song extension =
     Some (Result (sanitize env fmt song extension (fallback_filepath song parsed))
             (unique_filename = Some True))"
  using assms by (simp add: GetFilenameForSong_def Let_def)

text \<open>The claim C3 as stated fails: with spaces replaced, the space of the template
  is replaced, and the space of the extension \<open>fl ac\<close> is in the returned path, both
  when the caller gives that extension and when it is the suffix of the source file
  of the song.\<close>

theorem replace_spaces_counterexample:
  "replace_spaces (OrganizeFormat_new (QLatin1String ''%album %title'')) \<and>
   GetFilenameForSong sample_environment (OrganizeFormat_new (QLatin1String ''%album %title''))
     sample_song (QLatin1String ''fl ac'') = Some (Result (QLatin1String ''X_T.fl ac'') True) \<and>
   GetFilenameForSong sample_environment (OrganizeFormat_new (QLatin1String ''%album %title''))
     (sample_song\<lparr>url_toLocalFile := QLatin1String ''/m/s.fl ac''\<rparr>) []
     = Some (Result (QLatin1String ''X_T.fl ac'') True) \<and>
   QLatin1Char CHR '' '' \<in> set (QLatin1String ''X_T.fl ac'') \<and>
   isSpace (QLatin1Char CHR '' '') \<and> regex_space (QLatin1Char CHR '' '')"
proof -
  let ?fmt = "OrganizeFormat_new (QLatin1String ''%album %title'')"
  let ?song = "sample_song\<lparr>url_toLocalFile := QLatin1String ''/m/s.fl ac''\<rparr>"
  have t: "album sample_song = QLatin1String ''X''" "title sample_song = QLatin1String ''T''"
    "album ?song = QLatin1String ''X''" "title ?song = QLatin1String ''T''"
    by (simp_all add: sample_song_def)
  have "QLatin1String ''fl ac'' \<noteq> []" by (simp add: QL)
  from sanitize_override [OF this]
  have "sanitize sample_environment ?fmt sample_song (QLatin1String ''fl ac'') (QLatin1String ''X T'')
      = QLatin1String ''X_T.fl ac''"
    by (simp add: spaced_sanitize_filepath) (simp add: QL)
  with GetFilenameForSong_success [OF spaced_ParseBlock [OF t(1,2)], of "QLatin1String ''fl ac''"]
    spaced_candidate
  have 1: "GetFilenameForSong sample_environment ?fmt sample_song (QLatin1String ''fl ac'')
      = Some (Result (QLatin1String ''X_T.fl ac'') True)"
    by simp
  have "QFileInfo_suffix (remove_characters sample_environment ?fmt (QLatin1String ''X T'')) = []"
    by (simp add: spaced_sanitize_filepath) (simp add: path_defs QL)
  from sanitize_source_suffix [OF this]
  have "sanitize sample_environment ?fmt ?song [] (QLatin1String ''X T'') = QLatin1String ''X_T.fl ac''"
    by (simp add: spaced_sanitize_filepath) (simp add: path_defs QL)
  with GetFilenameForSong_success [OF spaced_ParseBlock [OF t(3,4)], of "[]"] spaced_candidate
  have 2: "GetFilenameForSong sample_environment ?fmt ?song [] = Some (Result (QLatin1String ''X_T.fl ac'') True)"
    by simp
  show ?thesis
    by (simp only: 1 2) (simp add: OrganizeFormat_new_def QL isSpace_def regex_space_def)
qed

text \<open>
  C3 (as amended): when spaces are replaced, the returned path of a successful call
  is the cleaned file path of line 188, which has no whitespace at all, followed by
  the dot and the extension that line 190 appends. An extension from outside the
  template is appended as it is: the one the caller gives, or, when the caller gives
  none and the file path has no suffix at line 152, the suffix of the source file of
  the song; the returned path then has no whitespace exactly when that extension has
  none. When the caller gives none and the file path has a suffix without whitespace
  at line 152, the returned path has no whitespace.
\<close>

theorem replace_spaces_no_whitespace:
  assumes "replace_spaces fmt"
    and "ParseBlock env fmt (format fmt) song (Some False) = Some (parsed, unique_filename, empty1)"
    and "\<not> rejected (fallback_filepath song parsed)"
  shows "GetFilenameForSong env fmt song extension =
           Some (Result (sanitize env fmt song extension (fallback_filepath song parsed))
                   (unique_filename = Some True)) \<and>
         sanitize env fmt song extension (fallback_filepath song parsed) =
           sanitize_filepath env fmt (fallback_filepath song parsed) @
           (if sanitize_extension env fmt song extension (fallback_filepath song parsed) = [] then []
            else QLatin1Char CHR ''.'' #
                 sanitize_extension env fmt song extension (fallback_filepath song parsed)) \<and>
         (\<forall>c\<in>set (sanitize_filepath env fmt (fallback_filepath song parsed)). \<not> isSpace c) \<and>
         (extension \<noteq> [] \<longrightarrow>
            sanitize_extension env fmt song extension (fallback_filepath song parsed) = extension \<and>
            ((\<forall>c\<in>set (sanitize env fmt song extension (fallback_filepath song parsed)). \<not> isSpace c)
               \<longleftrightarrow> (\<forall>c\<in>set extension. \<not> isSpace c))) \<and>
         (extension = [] \<and>
          QFileInfo_suffix (remove_characters env fmt (fallback_filepath song parsed)) = [] \<longrightarrow>
            sanitize_extension env fmt song extension (fallback_filepath song parsed) =
              QFileInfo_suffix (url_toLocalFile song) \<and>
            ((\<forall>c\<in>set (sanitize env fmt song extension (fallback_filepath song parsed)). \<not> isSpace c)
               \<longleftrightarrow> (\<forall>c\<in>set (QFileInfo_suffix (url_toLocalFile song)). \<not> isSpace c))) \<and>
         (extension = [] \<and>
          QFileInfo_suffix (remove_characters env fmt (fallback_filepath song parsed)) \<noteq> [] \<and>
          (\<forall>c\<in>set (QFileInfo_suffix (remove_characters env fmt (fallback_filepath song parsed))).
             \<not> isSpace c) \<longrightarrow>
            (\<forall>c\<in>set (sanitize env fmt song extension (fallback_filepath song parsed)). \<not> isSpace c))"
proof (intro conjI impI)
  show "GetFilenameForSong env fmt song extension =
      Some (Result (sanitize env fmt song extension (fallback_filepath song parsed))
              (unique_filename = Some True))"
    using assms(2,3) by (rule GetFilenameForSong_success)
  show eq: "sanitize env fmt song extension (fallback_filepath song parsed) =
           sanitize_filepath env fmt (fallback_filepath song parsed) @
           (if sanitize_extension env fmt song extension (fallback_filepath song parsed) = [] then []
            else QLatin1Char CHR ''.'' #
                 sanitize_extension env fmt song extension (fallback_filepath song parsed))"
    by (simp add: sanitize_def QL)
  show body: "\<forall>c\<in>set (sanitize_filepath env fmt (fallback_filepath song parsed)). \<not> isSpace c"
    using sanitize_filepath_no_space [OF assms(1)] by blast
  have iff: "(\<forall>c\<in>set (sanitize env fmt song extension (fallback_filepath song parsed)). \<not> isSpace c)
      \<longleftrightarrow> (\<forall>c\<in>set (sanitize_extension env fmt song extension (fallback_filepath song parsed)).
            \<not> isSpace c)"
    using body not_space_punct(3) by (auto simp: eq)
  show ov: "sanitize_extension env fmt song extension (fallback_filepath song parsed) = extension"
    if "extension \<noteq> []"
    using that by (simp add: sanitize_extension_def fixup_extension_def)
  show "(\<forall>c\<in>set (sanitize env fmt song extension (fallback_filepath song parsed)). \<not> isSpace c)
      \<longleftrightarrow> (\<forall>c\<in>set extension. \<not> isSpace c)" if "extension \<noteq> []"
    using iff ov [OF that] by simp
  show src: "sanitize_extension env fmt song extension (fallback_filepath song parsed) =
      QFileInfo_suffix (url_toLocalFile song)"
    if "extension = [] \<and>
        QFileInfo_suffix (remove_characters env fmt (fallback_filepath song parsed)) = []"
    using that by (simp add: sanitize_extension_def fixup_extension_def)
  show "(\<forall>c\<in>set (sanitize env fmt song extension (fallback_filepath song parsed)). \<not> isSpace c)
      \<longleftrightarrow> (\<forall>c\<in>set (QFileInfo_suffix (url_toLocalFile song)). \<not> isSpace c)"
    if "extension = [] \<and>
        QFileInfo_suffix (remove_characters env fmt (fallback_filepath song parsed)) = []"
    using iff src [OF that] by simp
  show "\<forall>c\<in>set (sanitize env fmt song extension (fallback_filepath song parsed)). \<not> isSpace c"
    if h: "extension = [] \<and>
        QFileInfo_suffix (remove_characters env fmt (fallback_filepath song parsed)) \<noteq> [] \<and>
        (\<forall>c\<in>set (QFileInfo_suffix (remove_characters env fmt (fallback_filepath song parsed))).
           \<not> isSpace c)"
  proof -
    from h have "sanitize_extension env fmt song extension (fallback_filepath song parsed) =
        QFileInfo_suffix (remove_characters env fmt (fallback_filepath song parsed))"
      by (simp add: sanitize_extension_def fixup_extension_def)
    with iff h show ?thesis by simp
  qed
qed

theorem replace_spaces_no_whitespace_witness:
  "GetFilenameForSong sample_environment (OrganizeFormat_new (QLatin1String ''%album %title''))
     sample_song (QLatin1String ''flac'') = Some (Result (QLatin1String ''X_T.flac'') True) \<and>
   GetFilenameForSong sample_environment (OrganizeFormat_new (QLatin1String ''%album %title''))
     sample_song [] = Some (Result (QLatin1String ''X_T.mp3'') True) \<and>
   GetFilenameForSong sample_environment
     (OrganizeFormat_new (QLatin1String ''%album %title.%extension''))
     sample_song [] = Some (Result (QLatin1String ''X_T.mp3'') True) \<and>
   list_all (\<lambda>c. \<not> isSpace c) (QLatin1String ''X_T.flac'') \<and>
   list_all (\<lambda>c. \<not> isSpace c) (QLatin1String ''X_T.mp3'')"
proof -
  let ?fmt = "OrganizeFormat_new (QLatin1String ''%album %title'')"
  let ?dot = "OrganizeFormat_new (QLatin1String ''%album %title.%extension'')"
  have r: "replace_spaces ?fmt" "replace_spaces ?dot" by (simp_all add: OrganizeFormat_new_def)
  have t: "album sample_song = QLatin1String ''X''" "title sample_song = QLatin1String ''T''"
    by (simp_all add: sample_song_def)
  have nr: "\<not> rejected (fallback_filepath sample_song (QLatin1String ''X T''))"
    "\<not> rejected (fallback_filepath sample_song (QLatin1String ''X T.mp3''))"
    by (simp_all add: spaced_candidate)
  note given = replace_spaces_no_whitespace [OF r(1) spaced_ParseBlock [OF t] nr(1),
      of "QLatin1String ''flac''", unfolded spaced_candidate]
  note source = replace_spaces_no_whitespace [OF r(1) spaced_ParseBlock [OF t] nr(1), of "[]",
      unfolded spaced_candidate]
  note dotted = replace_spaces_no_whitespace [OF r(2) dotted_ParseBlock nr(2), of "[]",
      unfolded spaced_candidate]
  have x: "QLatin1String ''flac'' \<noteq> []" "\<forall>c\<in>set (QLatin1String ''flac''). \<not> isSpace c"
    by (simp_all add: QL isSpace_def)
  have s: "QFileInfo_suffix (remove_characters sample_environment ?fmt (QLatin1String ''X T'')) = []"
    "QFileInfo_suffix (url_toLocalFile sample_song) = QLatin1String ''mp3''"
    "QFileInfo_suffix (remove_characters sample_environment ?dot (QLatin1String ''X T.mp3''))
       = QLatin1String ''mp3''"
    "\<forall>c\<in>set (QLatin1String ''mp3''). \<not> isSpace c" "QLatin1String ''mp3'' \<noteq> []"
    by (simp_all add: spaced_sanitize_filepath) (simp_all add: path_defs QL sample_song_def isSpace_def)
  have p1: "sanitize sample_environment ?fmt sample_song (QLatin1String ''flac'') (QLatin1String ''X T'')
      = QLatin1String ''X_T.flac''"
    using given [THEN conjunct2, THEN conjunct1]
      given [THEN conjunct2, THEN conjunct2, THEN conjunct2, THEN conjunct1, THEN mp, OF x(1),
        THEN conjunct1]
    by (simp add: spaced_sanitize_filepath) (simp add: QL)
  have w1: "\<forall>c\<in>set (QLatin1String ''X_T.flac''). \<not> isSpace c"
    using given [THEN conjunct2, THEN conjunct2, THEN conjunct2, THEN conjunct1, THEN mp, OF x(1),
        THEN conjunct2] x(2)
    by (simp only: p1)
  have p2: "sanitize sample_environment ?fmt sample_song [] (QLatin1String ''X T'')
      = QLatin1String ''X_T.mp3''"
    using source [THEN conjunct2, THEN conjunct1]
      source [THEN conjunct2, THEN conjunct2, THEN conjunct2, THEN conjunct2, THEN conjunct1,
        THEN mp, OF conjI, OF refl s(1), THEN conjunct1]
    by (simp add: spaced_sanitize_filepath s(2)) (simp add: QL)
  have "QFileInfo_suffix (remove_characters sample_environment ?dot (QLatin1String ''X T.mp3'')) \<noteq> []"
    by (simp only: s(3)) (simp add: QL)
  from sanitize_path_suffix [OF this, of sample_song]
  have p3: "sanitize sample_environment ?dot sample_song [] (QLatin1String ''X T.mp3'')
      = QLatin1String ''X_T.mp3''"
    by (simp only: s(3) spaced_sanitize_filepath(2)) (simp add: QL)
  have w3: "\<forall>c\<in>set (QLatin1String ''X_T.mp3''). \<not> isSpace c"
    using dotted [THEN conjunct2, THEN conjunct2, THEN conjunct2, THEN conjunct2, THEN conjunct2]
      s(3,4,5)
    by (simp add: p3)
  from given [THEN conjunct1] source [THEN conjunct1] dotted [THEN conjunct1] w1 w3
  show ?thesis by (simp add: p1 p2 p3 list_all_iff)
qed

lemma suffix_ParseBlock:
  "ParseBlock sample_environment (OrganizeFormat_new (QLatin1String ''%title''))
     (format (OrganizeFormat_new (QLatin1String ''%title'')))
     (sample_song\<lparr>title := QLatin1String ''Mr. Blue Sky''\<rparr>) (Some False)
   = Some (QLatin1String ''Mr. Blue Sky'', Some True, False)"
proof -
  have t: "TagValue sample_environment (OrganizeFormat_new (QLatin1String ''%title''))
      (QLatin1String ''title'') (sample_song\<lparr>title := QLatin1String ''Mr. Blue Sky''\<rparr>)
      = Some (QLatin1String ''Mr. Blue Sky'')"
    by (simp add: QL sample_defs TagValue_defs)
  have "blocks_loop sample_environment (OrganizeFormat_new (QLatin1String ''%title''))
      (sample_song\<lparr>title := QLatin1String ''Mr. Blue Sky''\<rparr>) (QLatin1String ''%title'') 0 (Some False)
      = Some (QLatin1String ''%title'', Some False)"
    by (simp add: blocks_loop.simps match_defs QL)
  moreover have "tags_loop sample_environment (OrganizeFormat_new (QLatin1String ''%title''))
      (sample_song\<lparr>title := QLatin1String ''Mr. Blue Sky''\<rparr>) (QLatin1String ''%title'') 0
      (Some False) False = Some (QLatin1String ''Mr. Blue Sky'', Some True, False)"
    by (simp add: tags_loop.simps match_defs QL kUniqueTags_def t [unfolded QL, simplified])
  ultimately show ?thesis
    by (simp add: ParseBlock.simps [of _ _ "QLatin1String ''%title''"] OrganizeFormat_new_def)
qed

text \<open>
  Without an extension of the caller, a suffix that the file path itself has at line
  152 becomes the extension at line 159 and is appended as it is: for the title
  \<open>Mr. Blue Sky\<close> the returned path is \<open>Mr. Blue Sky\<close>, with its spaces and without
  the suffix of the source file.
\<close>

lemma path_suffix_keeps_spaces:
  "GetFilenameForSong sample_environment (OrganizeFormat_new (QLatin1String ''%title''))
     (sample_song\<lparr>title := QLatin1String ''Mr. Blue Sky''\<rparr>) []
   = Some (Result (QLatin1String ''Mr. Blue Sky'') True)"
proof -
  have fb: "fallback_filepath song (QLatin1String ''Mr. Blue Sky'') = QLatin1String ''Mr. Blue Sky''"
    for song
    by (simp add: path_defs QL)
  have nr: "\<not> rejected (QLatin1String ''Mr. Blue Sky'')"
    by (simp add: path_defs QL)
  have s: "sanitize sample_environment (OrganizeFormat_new (QLatin1String ''%title''))
      (sample_song\<lparr>title := QLatin1String ''Mr. Blue Sky''\<rparr>) [] (QLatin1String ''Mr. Blue Sky'')
      = QLatin1String ''Mr. Blue Sky''"
    by (simp add: sanitize_defs path_defs QL sample_defs trimmed_def isSpace_def regex_space_def)
  show ?thesis
    by (simp add: GetFilenameForSong_def suffix_ParseBlock fb nr s)
qed

section \<open>Sanitizing twice\<close>
























lemma nodouble_append:
  "nodouble (a @ b) \<longleftrightarrow>
     nodouble a \<and> nodouble b \<and> (a \<noteq> [] \<and> b \<noteq> [] \<longrightarrow> \<not> (isSpace (last a) \<and> isSpace (hd b)))"
proof (induction a rule: nodouble.induct)
  case (1 c d cs)
  then show ?case by auto
next
  case (2 c)
  then show ?case by (cases b) auto
next
  case 3
  then show ?case by simp
qed


lemma nodouble_take: "nodouble s \<Longrightarrow> nodouble (take n s)"
  using nodouble_append [of "take n s" "drop n s"] by simp











































end
